theory Spec2Isabelle
  imports Complex_Main
begin

section \<open>Error taxonomy\<close>

text \<open>
  The documented hierarchy: six classes extend \<open>MpesaError\<close>, which extends the native
  \<open>Error\<close>. Every instance has a \<open>message\<close> and a \<open>name\<close>; the optional properties
  (\<open>errorCode?: string\<close> and so on) are \<open>string option\<close>, with \<open>None\<close> for \<open>undefined\<close>.
\<close>

datatype mpesa_error =
    AuthenticationError (message: string) (errorCode: "string option")
  | NetworkError (message: string)
  | ValidationError (message: string) (field: "string option")
  | StkPushError (message: string) (responseCode: "string option")
      (merchantRequestId: "string option") (checkoutRequestId: "string option")
  | PayoutError (message: string) (errorCode: "string option") (requestId: "string option")
      (responseCode: "string option") (conversationId: "string option")
  | RegisterUrlError (message: string) (responseCode: "string option")
      (shortCode: "string option")

text \<open>The \<open>name\<close> property each class declares.\<close>

fun name :: "mpesa_error \<Rightarrow> string" where
  "name (AuthenticationError m ec) = ''AuthenticationError''"
| "name (NetworkError m) = ''NetworkError''"
| "name (ValidationError m f) = ''ValidationError''"
| "name (StkPushError m rc mr cr) = ''StkPushError''"
| "name (PayoutError m ec rq rc cv) = ''PayoutError''"
| "name (RegisterUrlError m rc sc) = ''RegisterUrlError''"

text \<open>
  The properties each class declares besides those of the base class, in declaration
  order, with their values.
\<close>

fun fields :: "mpesa_error \<Rightarrow> (string \<times> string option) list" where
  "fields (AuthenticationError m ec) = [(''errorCode'', ec)]"
| "fields (NetworkError m) = []"
| "fields (ValidationError m f) = [(''field'', f)]"
| "fields (StkPushError m rc mr cr) =
     [(''responseCode'', rc), (''merchantRequestId'', mr), (''checkoutRequestId'', cr)]"
| "fields (PayoutError m ec rq rc cv) =
     [(''errorCode'', ec), (''requestId'', rq), (''responseCode'', rc), (''conversationId'', cv)]"
| "fields (RegisterUrlError m rc sc) = [(''responseCode'', rc), (''shortCode'', sc)]"

text \<open>
  What a \<open>throw\<close> can carry: an error of the taxonomy, or a plain native \<open>Error\<close> with
  its message (\<open>new Error('...')\<close>).
\<close>

datatype thrown = Mpesa mpesa_error | Error string

section \<open>JavaScript numbers\<close>

text \<open>
  A JavaScript \<open>number\<close>: a finite value, an infinity, or \<open>NaN\<close>. The arithmetic on finite
  values is that of the reals. Every comparison with \<open>NaN\<close> is false, and \<open>NaN\<close> spreads
  through the arithmetic.
\<close>

datatype number = Finite real | Infinity | NegInfinity | NaN

text \<open>\<open>a < b\<close>.\<close>

fun lessThan :: "number \<Rightarrow> number \<Rightarrow> bool" where
  "lessThan NaN b = False"
| "lessThan a NaN = False"
| "lessThan (Finite a) (Finite b) = (a < b)"
| "lessThan (Finite a) Infinity = True"
| "lessThan (Finite a) NegInfinity = False"
| "lessThan Infinity b = False"
| "lessThan NegInfinity NegInfinity = False"
| "lessThan NegInfinity b = True"

text \<open>\<open>a >= b\<close>, \<open>a <= b\<close> and \<open>a === b\<close>.\<close>

definition greaterEqual :: "number \<Rightarrow> number \<Rightarrow> bool" where
  "greaterEqual a b = (a \<noteq> NaN \<and> b \<noteq> NaN \<and> \<not> lessThan a b)"

definition lessEqual :: "number \<Rightarrow> number \<Rightarrow> bool" where
  "lessEqual a b = (a \<noteq> NaN \<and> b \<noteq> NaN \<and> \<not> lessThan b a)"

definition strictEquals :: "number \<Rightarrow> number \<Rightarrow> bool" where
  "strictEquals a b = (a \<noteq> NaN \<and> b \<noteq> NaN \<and> a = b)"

text \<open>\<open>a + b\<close>, \<open>- a\<close>, \<open>a - b\<close> and \<open>a * b\<close>.\<close>

fun addN :: "number \<Rightarrow> number \<Rightarrow> number" where
  "addN NaN b = NaN"
| "addN a NaN = NaN"
| "addN (Finite a) (Finite b) = Finite (a + b)"
| "addN Infinity NegInfinity = NaN"
| "addN NegInfinity Infinity = NaN"
| "addN Infinity b = Infinity"
| "addN a Infinity = Infinity"
| "addN NegInfinity b = NegInfinity"
| "addN a NegInfinity = NegInfinity"

fun negN :: "number \<Rightarrow> number" where
  "negN (Finite a) = Finite (- a)"
| "negN Infinity = NegInfinity"
| "negN NegInfinity = Infinity"
| "negN NaN = NaN"

definition subN :: "number \<Rightarrow> number \<Rightarrow> number" where
  "subN a b = addN a (negN b)"

fun signed :: "real \<Rightarrow> number" where
  "signed x = (if x = 0 then NaN else if 0 < x then Infinity else NegInfinity)"

fun mulN :: "number \<Rightarrow> number \<Rightarrow> number" where
  "mulN NaN b = NaN"
| "mulN a NaN = NaN"
| "mulN (Finite a) (Finite b) = Finite (a * b)"
| "mulN Infinity (Finite b) = signed b"
| "mulN NegInfinity (Finite b) = signed (- b)"
| "mulN (Finite a) Infinity = signed a"
| "mulN (Finite a) NegInfinity = signed (- a)"
| "mulN Infinity Infinity = Infinity"
| "mulN NegInfinity NegInfinity = Infinity"
| "mulN Infinity NegInfinity = NegInfinity"
| "mulN NegInfinity Infinity = NegInfinity"

text \<open>A count and a time in milliseconds (\<open>Date.now()\<close>) as numbers.\<close>

definition count :: "nat \<Rightarrow> number" where
  "count n = Finite (real n)"

definition ms :: "int \<Rightarrow> number" where
  "ms t = Finite (real_of_int t)"

section \<open>Retry with exponential backoff\<close>

text \<open>
  The condition under which the \<open>catch\<close> block of \<open>retryWithExponentialBackoff\<close> waits
  and continues:
  \<^verbatim>\<open>error instanceof NetworkError ||
  (error instanceof StkPushError && error.responseCode === '17')\<close>
\<close>

fun isRetryable :: "thrown \<Rightarrow> bool" where
  "isRetryable (Mpesa (NetworkError m)) = True"
| "isRetryable (Mpesa (StkPushError m rc mr cr)) = (rc = Some ''17'')"
| "isRetryable _ = False"

text \<open>
  What the function does to the outside, in order: it invokes the operation and it sleeps
  (\<open>setTimeout\<close>) for a number of milliseconds.
\<close>

datatype event = Invoke | Sleep number

fun invocations :: "event list \<Rightarrow> nat" where
  "invocations [] = 0"
| "invocations (Invoke # es) = Suc (invocations es)"
| "invocations (Sleep d # es) = invocations es"

fun sleeps :: "event list \<Rightarrow> number list" where
  "sleeps [] = []"
| "sleeps (Invoke # es) = sleeps es"
| "sleeps (Sleep d # es) = d # sleeps es"

text \<open>
  The operation is a closure with effects: it takes the state of the world and returns
  either what it threw or its value, and the new state. \<open>rnd n\<close> is the value
  \<open>Math.random()\<close> returns in the \<open>catch\<close> block of attempt \<open>n\<close>. \<open>maxRetries\<close> and
  \<open>baseDelay\<close> are numbers, as the function takes them: it checks neither. The \<open>while\<close>
  loop is the recursion; \<open>attempts\<close> counts from 0. With \<open>maxRetries\<close> infinite the loop
  need not end, so the recursion is on a number of iterations it may still make, and
  \<open>None\<close> is the run that has not ended within them.
\<close>

fun retryLoop ::
  "nat \<Rightarrow> ('s \<Rightarrow> (thrown + 'a) \<times> 's) \<Rightarrow> (nat \<Rightarrow> real) \<Rightarrow> number \<Rightarrow> number \<Rightarrow> nat \<Rightarrow> 's
     \<Rightarrow> event list \<Rightarrow> ((thrown + 'a) \<times> 's \<times> event list) option" where
  "retryLoop 0 operation rnd maxRetries baseDelay attempts s evs = None"
| "retryLoop (Suc fuel) operation rnd maxRetries baseDelay attempts s evs =
     (if lessThan (count attempts) maxRetries then
        (case operation s of
           (Inr v, s') \<Rightarrow> Some (Inr v, s', evs @ [Invoke])
         | (Inl error, s') \<Rightarrow>
             (let attempts' = attempts + 1 in
              if strictEquals (count attempts') maxRetries then
                Some (Inl error, s', evs @ [Invoke])
              else if isRetryable error then
                (let delay = mulN baseDelay (Finite (2 ^ (attempts' - 1)));
                     jitter = Finite (rnd attempts' * 100)
                 in retryLoop fuel operation rnd maxRetries baseDelay attempts' s'
                      (evs @ [Invoke, Sleep (addN delay jitter)]))
              else Some (Inl error, s', evs @ [Invoke])))
      else Some (Inl (Error ''Maximum retry attempts reached''), s, evs))"

definition retryWithExponentialBackoff ::
  "nat \<Rightarrow> ('s \<Rightarrow> (thrown + 'a) \<times> 's) \<Rightarrow> (nat \<Rightarrow> real) \<Rightarrow> number \<Rightarrow> number \<Rightarrow> 's
     \<Rightarrow> ((thrown + 'a) \<times> 's \<times> event list) option" where
  "retryWithExponentialBackoff fuel operation rnd maxRetries baseDelay s =
     retryLoop fuel operation rnd maxRetries baseDelay 0 s []"

text \<open>
  To speak of a run: the state before invocation number \<open>k\<close> of the operation (counted
  from 0), and what that invocation returns or throws.
\<close>

definition states :: "('s \<Rightarrow> (thrown + 'a) \<times> 's) \<Rightarrow> 's \<Rightarrow> nat \<Rightarrow> 's" where
  "states operation s k = ((\<lambda>s. snd (operation s)) ^^ k) s"

definition outcome :: "('s \<Rightarrow> (thrown + 'a) \<times> 's) \<Rightarrow> 's \<Rightarrow> nat \<Rightarrow> thrown + 'a" where
  "outcome operation s k = fst (operation (states operation s k))"

text \<open>
  The delay of retry \<open>n\<close> (counted from 1) as the \<open>catch\<close> block computes it, and the
  events of \<open>j\<close> failed attempts from attempt \<open>a\<close> on, each followed by its delay.
\<close>

definition backoff :: "number \<Rightarrow> (nat \<Rightarrow> real) \<Rightarrow> nat \<Rightarrow> number" where
  "backoff baseDelay rnd n = addN (mulN baseDelay (Finite (2 ^ (n - 1)))) (Finite (rnd n * 100))"

definition retryLog :: "number \<Rightarrow> (nat \<Rightarrow> real) \<Rightarrow> nat \<Rightarrow> nat \<Rightarrow> event list" where
  "retryLog baseDelay rnd a j =
     concat (map (\<lambda>k. [Invoke, Sleep (backoff baseDelay rnd (Suc k))]) [a ..< a + j])"

text \<open>
  Attempt \<open>k\<close> of a run that began at attempt \<open>a\<close> was made, failed with an error the
  function retries on, and was not the attempt at which \<open>attempts === maxRetries\<close>.
\<close>

definition retried ::
  "('s \<Rightarrow> (thrown + 'a) \<times> 's) \<Rightarrow> 's \<Rightarrow> number \<Rightarrow> nat \<Rightarrow> nat \<Rightarrow> bool" where
  "retried operation s maxRetries a k =
     (lessThan (count (a + k)) maxRetries
      \<and> (case outcome operation s k of Inl e \<Rightarrow> isRetryable e | Inr v \<Rightarrow> False)
      \<and> \<not> strictEquals (count (Suc (a + k))) maxRetries)"

text \<open>
  The two ways a run ends: by an attempt that returns or rethrows (after \<open>d\<close> attempts
  that were retried), or by the condition of the loop (after \<open>c\<close> attempts that were
  retried), with the result and the events of each.
\<close>

definition ended_by_attempt ::
  "('s \<Rightarrow> (thrown + 'a) \<times> 's) \<Rightarrow> (nat \<Rightarrow> real) \<Rightarrow> number \<Rightarrow> number \<Rightarrow> nat \<Rightarrow> 's \<Rightarrow> event list
     \<Rightarrow> (thrown + 'a) \<times> 's \<times> event list \<Rightarrow> nat \<Rightarrow> bool" where
  "ended_by_attempt operation rnd maxRetries baseDelay a s evs r d =
     (r = (outcome operation s d, states operation s (Suc d),
           evs @ retryLog baseDelay rnd a d @ [Invoke])
      \<and> (\<forall>k<d. retried operation s maxRetries a k)
      \<and> lessThan (count (a + d)) maxRetries
      \<and> (case outcome operation s d of
            Inr v \<Rightarrow> True
          | Inl e \<Rightarrow> strictEquals (count (Suc (a + d))) maxRetries \<or> \<not> isRetryable e))"

definition ended_by_condition ::
  "('s \<Rightarrow> (thrown + 'a) \<times> 's) \<Rightarrow> (nat \<Rightarrow> real) \<Rightarrow> number \<Rightarrow> number \<Rightarrow> nat \<Rightarrow> 's \<Rightarrow> event list
     \<Rightarrow> (thrown + 'a) \<times> 's \<times> event list \<Rightarrow> nat \<Rightarrow> bool" where
  "ended_by_condition operation rnd maxRetries baseDelay a s evs r c =
     (r = (Inl (Error ''Maximum retry attempts reached''), states operation s c,
           evs @ retryLog baseDelay rnd a c)
      \<and> (\<forall>k<c. retried operation s maxRetries a k)
      \<and> \<not> lessThan (count (a + c)) maxRetries)"

text \<open>The number of iterations after which the loop has ended, when \<open>maxRetries\<close> is not infinite.\<close>

fun iterations :: "number \<Rightarrow> nat" where
  "iterations (Finite r) = nat \<lceil>r\<rceil>"
| "iterations m = 0"

text \<open>\<open>error instanceof MpesaError\<close>: the error belongs to the taxonomy.\<close>

fun isMpesaError :: "thrown \<Rightarrow> bool" where
  "isMpesaError (Mpesa e) = True"
| "isMpesaError (Error m) = False"

text \<open>The class a taxonomy error belongs to, with the names of the properties it declares.\<close>

definition shape :: "mpesa_error \<Rightarrow> string \<times> string list" where
  "shape e = (name e, map fst (fields e))"

text \<open>
  The taxonomy as the specification lists it, to be compared with the classes above: the
  six variants with their structured fields. The specification's variants
  \<open>Authentication\<close>, \<open>Network\<close>, \<open>Validation\<close>, \<open>StkPushFailure\<close>, \<open>PayoutFailure\<close> and
  \<open>RegisterUrlFailure\<close> are written with the names of the classes.
\<close>

definition spec_taxonomy :: "(string \<times> string list) list" where
  "spec_taxonomy =
     [(''AuthenticationError'', [''errorCode'']),
      (''NetworkError'', []),
      (''ValidationError'', [''field'']),
      (''StkPushError'', [''responseCode'', ''merchantRequestId'', ''checkoutRequestId'']),
      (''PayoutError'', [''errorCode'', ''requestId'', ''responseCode'', ''conversationId'']),
      (''RegisterUrlError'', [''responseCode'', ''shortCode''])]"

text \<open>The retry settings of the documented environment file.\<close>

definition MPESAJS_MAX_RETRIES :: number where "MPESAJS_MAX_RETRIES = Finite 3"
definition MPESAJS_INITIAL_DELAY_MS :: number where "MPESAJS_INITIAL_DELAY_MS = Finite 1000"

text \<open>
  Two operations to run the retry function on. The state counts the invocations; the
  message of the network error tells the invocations apart (\<open>n\<close> times \<open>x\<close> at the
  invocation after \<open>n\<close> earlier ones).
\<close>

definition alwaysNetworkError :: "nat \<Rightarrow> (thrown + unit) \<times> nat" where
  "alwaysNetworkError s = (Inl (Mpesa (NetworkError (replicate s CHR ''x''))), Suc s)"

definition alwaysValidationError :: "nat \<Rightarrow> (thrown + unit) \<times> nat" where
  "alwaysValidationError s =
     (Inl (Mpesa (ValidationError ''Amount must be greater than 0'' (Some ''amount''))), Suc s)"

text \<open>
  An operation that fails with a network error at its first invocation and with the
  validation error from then on.
\<close>

definition networkThenValidationError :: "nat \<Rightarrow> (thrown + unit) \<times> nat" where
  "networkThenValidationError s =
     (if s = 0 then (Inl (Mpesa (NetworkError ''timeout'')), Suc s)
      else (Inl (Mpesa (ValidationError ''Amount must be greater than 0'' (Some ''amount''))),
            Suc s))"

section \<open>Token manager\<close>

text \<open>
  \<open>tokenData\<close> of the class \<open>TokenManager\<close> is \<open>null\<close> or a record of the token and
  \<open>expiresAt\<close>, in milliseconds of \<open>Date.now()\<close>. What \<open>Auth.generateToken\<close> resolves to is
  \<open>{token, tokenType, expiresIn}\<close>, with \<open>expiresIn\<close> in seconds. Both \<open>expiresIn\<close> and
  \<open>expiresAt\<close> are numbers, whatever the provider sends; \<open>Date.now()\<close> is a whole number of
  milliseconds.
\<close>

record token_data =
  token :: string
  expiresAt :: number

datatype generated = Generated string string number

text \<open>
  \<open>getToken\<close> is an \<open>async\<close> function with one \<open>await\<close>, so it runs in two pieces. The first
  runs when the function is called, at time \<open>now\<close>: it tests
  \<^verbatim>\<open>!this.tokenData || Date.now() >= this.tokenData.expiresAt\<close>
  and either returns the cached token or calls \<open>generateToken\<close> and suspends.
\<close>

datatype begun = Hit string | Miss

definition getToken_begin :: "int \<Rightarrow> token_data option \<Rightarrow> begun" where
  "getToken_begin now tokenData =
     (case tokenData of
        None \<Rightarrow> Miss
      | Some td \<Rightarrow> if greaterEqual (ms now) (expiresAt td) then Miss else Hit (token td))"

text \<open>
  The second piece runs when the promise of \<open>generateToken\<close> settles, at time \<open>now\<close>: a
  rejection is thrown on, with \<open>tokenData\<close> as it is; a result is stored, with
  \<^verbatim>\<open>expiresAt: Date.now() + (expiresIn * 1000) - 60000\<close>, and its token returned.
\<close>

definition getToken_resume ::
  "int \<Rightarrow> thrown + generated \<Rightarrow> token_data option \<Rightarrow> (thrown + string) \<times> token_data option" where
  "getToken_resume now settled tokenData =
     (case settled of
        Inl error \<Rightarrow> (Inl error, tokenData)
      | Inr (Generated tok tokenType expiresIn) \<Rightarrow>
          (let td = \<lparr>token = tok,
                     expiresAt = subN (addN (ms now) (mulN expiresIn (Finite 1000))) (Finite 60000)\<rparr>
           in (Inr (token td), Some td)))"

text \<open>
  The time at which a token obtained at \<open>now\<close> for \<open>expiresIn\<close> seconds expires, and the
  \<open>expiresAt\<close> that \<open>getToken\<close> stores for it: the expiry less the buffer of one minute.
\<close>

definition expiry :: "int \<Rightarrow> number \<Rightarrow> number" where
  "expiry now expiresIn = addN (ms now) (mulN expiresIn (Finite 1000))"

definition storedExpiresAt :: "int \<Rightarrow> number \<Rightarrow> number" where
  "storedExpiresAt now expiresIn = subN (expiry now expiresIn) (Finite 60000)"

text \<open>
  One call of \<open>getToken\<close> that nothing interleaves with: called at \<open>now\<close>; if it refreshes,
  \<open>generateToken\<close> settles with \<open>settled\<close> at time \<open>now'\<close>. The result is what the caller
  gets, the new \<open>tokenData\<close> and the number of calls of \<open>generateToken\<close>.
\<close>

definition getToken ::
  "int \<Rightarrow> thrown + generated \<Rightarrow> int \<Rightarrow> token_data option
     \<Rightarrow> (thrown + string) \<times> token_data option \<times> nat" where
  "getToken now settled now' tokenData =
     (case getToken_begin now tokenData of
        Hit tok \<Rightarrow> (Inr tok, tokenData, 0)
      | Miss \<Rightarrow>
          (case getToken_resume now' settled tokenData of
             (result, tokenData') \<Rightarrow> (result, tokenData', 1)))"

text \<open>
  Calls one after the other, each finished before the next begins: each call has its time,
  what \<open>generateToken\<close> would settle with and when.
\<close>

fun getToken_sequence ::
  "(int \<times> (thrown + generated) \<times> int) list \<Rightarrow> token_data option
     \<Rightarrow> (thrown + string) list \<times> token_data option \<times> nat" where
  "getToken_sequence [] tokenData = ([], tokenData, 0)"
| "getToken_sequence ((now, settled, now') # calls) tokenData =
     (case getToken now settled now' tokenData of
        (result, tokenData', n) \<Rightarrow>
          (case getToken_sequence calls tokenData' of
             (results, tokenData'', m) \<Rightarrow> (result # results, tokenData'', n + m)))"

text \<open>
  Calls that overlap on one \<open>TokenManager\<close>. JavaScript runs one piece of one call at a
  time, so a run is a schedule: a list of (caller, time), where each entry runs the next
  piece of that caller's call. \<open>exchanges\<close> counts the calls of \<open>generateToken\<close>;
  \<open>provider k\<close> is what call number \<open>k\<close> of \<open>generateToken\<close> settles with.
\<close>

datatype caller = Idle | Awaiting nat | Finished "thrown + string"

record manager =
  tokenData :: "token_data option"
  exchanges :: nat
  callers :: "caller list"

fun step :: "(nat \<Rightarrow> thrown + generated) \<Rightarrow> manager \<Rightarrow> nat \<times> int \<Rightarrow> manager" where
  "step provider m (i, now) =
     (if i < length (callers m) then
        (case callers m ! i of
           Idle \<Rightarrow>
             (case getToken_begin now (tokenData m) of
                Hit tok \<Rightarrow> m\<lparr>callers := (callers m)[i := Finished (Inr tok)]\<rparr>
              | Miss \<Rightarrow> m\<lparr>exchanges := Suc (exchanges m),
                          callers := (callers m)[i := Awaiting (exchanges m)]\<rparr>)
         | Awaiting k \<Rightarrow>
             (case getToken_resume now (provider k) (tokenData m) of
                (result, tokenData') \<Rightarrow>
                  m\<lparr>tokenData := tokenData', callers := (callers m)[i := Finished result]\<rparr>)
         | Finished result \<Rightarrow> m)
      else m)"

definition run :: "(nat \<Rightarrow> thrown + generated) \<Rightarrow> (nat \<times> int) list \<Rightarrow> manager \<Rightarrow> manager" where
  "run provider schedule m = foldl (step provider) m schedule"

text \<open>A provider that issues a new token at each exchange, valid for an hour.\<close>

definition freshTokens :: "nat \<Rightarrow> thrown + generated" where
  "freshTokens k = Inr (Generated (replicate (Suc k) CHR ''t'') ''Bearer'' (Finite 3600))"

section \<open>Rate limiter\<close>

text \<open>
  Modelled from the spec: the class \<open>RateLimiter\<close> that the documented modules use is not
  among the sources, only its settings \<open>MPESAJS_MAX_CONCURRENT\<close> and
  \<open>MPESAJS_TIME_WINDOW_MS\<close> are. The record is the specification's QuotaWindow, with the
  window's admission budget; \<open>Acquire\<close> and \<open>release\<close> follow section 4.2: both limits
  are evaluated at acquisition time in one critical section, the windows are aligned to
  the creation time and have a fixed length, and a caller that is not admitted waits
  without changing a counter.
\<close>

definition MPESAJS_MAX_CONCURRENT :: nat where "MPESAJS_MAX_CONCURRENT = 1000"
definition MPESAJS_TIME_WINDOW_MS :: int where "MPESAJS_TIME_WINDOW_MS = 60000"

record QuotaWindow =
  windowStart :: int
  windowDurationMs :: int
  maxConcurrent :: nat
  activeCount :: nat
  admittedInWindow :: nat
  windowBudget :: nat

text \<open>
  Modelled from the spec: crossing a window boundary. At time \<open>now\<close> at or after the end
  of the current window, the window becomes the aligned one that holds \<open>now\<close> and its
  admission counter starts at 0.
\<close>

definition rollWindow :: "int \<Rightarrow> QuotaWindow \<Rightarrow> QuotaWindow" where
  "rollWindow now q =
     (if 0 < windowDurationMs q \<and> windowStart q + windowDurationMs q \<le> now then
        q\<lparr>windowStart := windowStart q
               + ((now - windowStart q) div windowDurationMs q) * windowDurationMs q,
          admittedInWindow := 0\<rparr>
      else q)"

datatype admission = Admitted | Blocked

text \<open>
  Modelled from the spec: one evaluation of \<open>Acquire\<close> at time \<open>now\<close>. The caller is
  admitted when a concurrency slot is free and the window has budget left; otherwise it
  keeps waiting and no counter is incremented.
\<close>

definition acquire :: "int \<Rightarrow> QuotaWindow \<Rightarrow> admission \<times> QuotaWindow" where
  "acquire now q =
     (let q' = rollWindow now q in
      if activeCount q' < maxConcurrent q' \<and> admittedInWindow q' < windowBudget q' then
        (Admitted, q'\<lparr>activeCount := activeCount q' + 1,
                       admittedInWindow := admittedInWindow q' + 1\<rparr>)
      else (Blocked, q'))"

text \<open>Modelled from the spec: \<open>release\<close>, called once for each admitted acquisition.\<close>

definition release :: "QuotaWindow \<Rightarrow> QuotaWindow" where
  "release q = q\<lparr>activeCount := activeCount q - 1\<rparr>"

text \<open>
  Modelled from the spec: what callers do to one rate limiter, in the order the critical
  section serialises them. A cancelled wait changes nothing.
\<close>

datatype limiter_event = Acquire int | Release | Cancel

fun apply_event :: "QuotaWindow \<Rightarrow> limiter_event \<Rightarrow> QuotaWindow" where
  "apply_event q (Acquire now) = snd (acquire now q)"
| "apply_event q Release = release q"
| "apply_event q Cancel = q"

definition apply_events :: "limiter_event list \<Rightarrow> QuotaWindow \<Rightarrow> QuotaWindow" where
  "apply_events evs q = foldl apply_event q evs"

text \<open>
  Modelled from the spec: the acquisitions outstanding after a sequence of events, counted
  from the answers the callers got: one more for each admitted acquisition, one less for
  each release. \<open>release\<close> is for a caller that holds an acquisition, so a release with
  none outstanding is not a use of the limiter, and the count is \<open>None\<close>.
\<close>

fun outstanding :: "limiter_event list \<Rightarrow> QuotaWindow \<Rightarrow> nat \<Rightarrow> nat option" where
  "outstanding [] q n = Some n"
| "outstanding (Acquire now # evs) q n =
     (case acquire now q of
        (Admitted, q') \<Rightarrow> outstanding evs q' (Suc n)
      | (Blocked, q') \<Rightarrow> outstanding evs q' n)"
| "outstanding (Release # evs) q n =
     (if n = 0 then None else outstanding evs (release q) (n - 1))"
| "outstanding (Cancel # evs) q n = outstanding evs q n"

section \<open>Pre-flight validation\<close>

text \<open>
  The two comparisons of the amount, a number, that the validation and its rule use:
  \<open>amount <= 0\<close> and \<open>amount > 0\<close>. Every comparison with \<open>NaN\<close> is false.
\<close>

fun lessEqualZero :: "number \<Rightarrow> bool" where
  "lessEqualZero (Finite r) = (r \<le> 0)"
| "lessEqualZero Infinity = False"
| "lessEqualZero NegInfinity = True"
| "lessEqualZero NaN = False"

fun greaterThanZero :: "number \<Rightarrow> bool" where
  "greaterThanZero (Finite r) = (r > 0)"
| "greaterThanZero Infinity = True"
| "greaterThanZero NegInfinity = False"
| "greaterThanZero NaN = False"

text \<open>
  The regular expression \<^verbatim>\<open>/^251[7-9][0-9]{8}$/\<close> is a sequence of character classes between
  the two anchors; without the \<open>m\<close> flag, \<open>^\<close> and \<open>$\<close> are the two ends of the string, so
  \<open>test\<close> holds when the string is matched class by class, whole. One \<open>char\<close> stands for
  one code unit of the JavaScript string.
\<close>

datatype char_class = Lit char | Range char char

fun accepts :: "char_class \<Rightarrow> char \<Rightarrow> bool" where
  "accepts (Lit c) x = (x = c)"
| "accepts (Range lo hi) x = ((of_char lo :: nat) \<le> of_char x \<and> (of_char x :: nat) \<le> of_char hi)"

fun test :: "char_class list \<Rightarrow> string \<Rightarrow> bool" where
  "test [] [] = True"
| "test (c # cs) (x # xs) = (accepts c x \<and> test cs xs)"
| "test [] (x # xs) = False"
| "test (c # cs) [] = False"

definition phoneNumberPattern :: "char_class list" where
  "phoneNumberPattern =
     [Lit CHR ''2'', Lit CHR ''5'', Lit CHR ''1'', Range CHR ''7'' CHR ''9'']
       @ replicate 8 (Range CHR ''0'' CHR ''9'')"

text \<open>\<open>String.prototype.startsWith\<close>.\<close>

fun startsWith :: "string \<Rightarrow> string \<Rightarrow> bool" where
  "startsWith s [] = True"
| "startsWith [] (p # ps) = False"
| "startsWith (x # xs) (p # ps) = (x = p \<and> startsWith xs ps)"

record PaymentDetails =
  amount :: number
  phoneNumber :: string
  callbackUrl :: string
  reference :: string
  description :: string

definition validatePaymentDetails :: "PaymentDetails \<Rightarrow> thrown + unit" where
  "validatePaymentDetails details =
     (if lessEqualZero (amount details) then
        Inl (Mpesa (ValidationError ''Amount must be greater than 0'' (Some ''amount'')))
      else if \<not> test phoneNumberPattern (phoneNumber details) then
        Inl (Mpesa (ValidationError
          ''Invalid phone number format. Must start with 251 and be 12 digits long''
          (Some ''phoneNumber'')))
      else if \<not> startsWith (callbackUrl details) ''https://'' then
        Inl (Mpesa (ValidationError ''Callback URL must use HTTPS protocol'' (Some ''callbackUrl'')))
      else if length (reference details) > 12 then
        Inl (Mpesa (ValidationError ''Reference must not exceed 12 characters'' (Some ''reference'')))
      else if length (description details) > 13 then
        Inl (Mpesa (ValidationError ''Description must not exceed 13 characters''
          (Some ''description'')))
      else Inr ())"

text \<open>
  The five rules as the documentation lists them, in the order of the checks, each with
  the field it is about.
\<close>

definition rules :: "PaymentDetails \<Rightarrow> (string \<times> bool) list" where
  "rules details =
     [(''amount'', greaterThanZero (amount details)),
      (''phoneNumber'', test phoneNumberPattern (phoneNumber details)),
      (''callbackUrl'', startsWith (callbackUrl details) ''https://''),
      (''reference'', length (reference details) \<le> 12),
      (''description'', length (description details) \<le> 13)]"

text \<open>The field of the first rule that does not hold, if there is one.\<close>

fun firstViolated :: "(string \<times> bool) list \<Rightarrow> string option" where
  "firstViolated [] = None"
| "firstViolated ((f, ok) # rs) = (if ok then firstViolated rs else Some f)"

text \<open>The field a validation reports: that of the \<open>ValidationError\<close> it throws.\<close>

fun reportedField :: "thrown + unit \<Rightarrow> string option" where
  "reportedField (Inl (Mpesa (ValidationError m f))) = f"
| "reportedField _ = None"

section \<open>HTTPS check of a callback URL\<close>

text \<open>
  \<open>new URL(urlString)\<close> is the platform's parser, a parameter here: it returns the parsed
  URL or throws. Of the parsed URL the checks read \<open>protocol\<close> and \<open>hostname\<close>.
\<close>

record URL =
  protocol :: string
  hostname :: string

text \<open>\<open>try { body } catch { handler }\<close>: what the body throws is caught, whatever it is.\<close>

definition tryCatch :: "thrown + 'a \<Rightarrow> (thrown + 'a) \<Rightarrow> thrown + 'a" where
  "tryCatch body handler = (case body of Inl error \<Rightarrow> handler | Inr v \<Rightarrow> Inr v)"

definition isValidHttpsUrl :: "(string \<Rightarrow> thrown + URL) \<Rightarrow> string \<Rightarrow> thrown + bool" where
  "isValidHttpsUrl newURL urlString =
     tryCatch
       (case newURL urlString of
          Inl error \<Rightarrow> Inl error
        | Inr url \<Rightarrow> Inr (protocol url = ''https:''))
       (Inr False)"

text \<open>The static method of the class \<open>UrlValidator\<close>, with the same body.\<close>

definition UrlValidator_isValidHttpsUrl ::
  "(string \<Rightarrow> thrown + URL) \<Rightarrow> string \<Rightarrow> thrown + bool" where
  "UrlValidator_isValidHttpsUrl newURL urlString =
     tryCatch
       (case newURL urlString of
          Inl error \<Rightarrow> Inl error
        | Inr url \<Rightarrow> Inr (protocol url = ''https:''))
       (Inr False)"

section \<open>Inputs of the examples\<close>

text \<open>
  Ten callers on one token manager: each begins its call at time 0, before any exchange
  has settled; the ten exchanges settle at time 100.
\<close>

definition tenCalls :: "(nat \<times> int) list" where
  "tenCalls = [(0, 0), (1, 0), (2, 0), (3, 0), (4, 0), (5, 0), (6, 0), (7, 0), (8, 0), (9, 0),
     (0, 100), (1, 100), (2, 100), (3, 100), (4, 100), (5, 100), (6, 100), (7, 100), (8, 100), (9, 100)]"

text \<open>A rate limiter with two concurrency slots and three admissions in a window.\<close>

definition busyLimiter :: QuotaWindow where
  "busyLimiter = \<lparr>windowStart = 0, windowDurationMs = MPESAJS_TIME_WINDOW_MS, maxConcurrent = 2,
     activeCount = 0, admittedInWindow = 0, windowBudget = 3\<rparr>"

text \<open>Payment details that are in order but for the amount, which is \<open>NaN\<close>.\<close>

definition nanPayment :: PaymentDetails where
  "nanPayment = \<lparr>amount = NaN, phoneNumber = ''251712345678'',
     callbackUrl = ''https://example.com/callback'', reference = ''INV-001'',
     description = ''Payment''\<rparr>"

section \<open>Properties of the retry function\<close>

subsection \<open>How a run ends\<close>

lemma invocations_append: "invocations (xs @ ys) = invocations xs + invocations ys"
  by (induction xs rule: invocations.induct) simp_all

lemma sleeps_append: "sleeps (xs @ ys) = sleeps xs @ sleeps ys"
  by (induction xs rule: sleeps.induct) simp_all

lemma retryLog_0: "retryLog baseDelay rnd a 0 = []"
  by (simp add: retryLog_def)

lemma retryLog_Suc:
  "retryLog baseDelay rnd a (Suc j)
     = Invoke # Sleep (backoff baseDelay rnd (Suc a)) # retryLog baseDelay rnd (Suc a) j"
  by (simp add: retryLog_def upt_conv_Cons del: upt_Suc)

lemma invocations_retryLog: "invocations (retryLog baseDelay rnd a j) = j"
  by (induction j arbitrary: a) (simp_all add: retryLog_0 retryLog_Suc)

lemma sleeps_retryLog:
  "sleeps (retryLog baseDelay rnd a j) = map (\<lambda>k. backoff baseDelay rnd (Suc k)) [a ..< a + j]"
  by (induction j arbitrary: a) (simp_all add: retryLog_0 retryLog_Suc upt_conv_Cons del: upt_Suc)

lemma states_0: "states operation s 0 = s"
  by (simp add: states_def)

lemma states_Suc: "states operation s (Suc k) = states operation (snd (operation s)) k"
  using funpow_swap1 [of "\<lambda>s. snd (operation s)" k s] by (simp add: states_def)

lemma outcome_0: "outcome operation s 0 = fst (operation s)"
  by (simp add: outcome_def states_0)

lemma outcome_Suc: "outcome operation s (Suc k) = outcome operation (snd (operation s)) k"
  by (simp add: outcome_def states_Suc)

lemma retried_0:
  "retried operation s maxRetries a 0 =
     (lessThan (count a) maxRetries
      \<and> (case fst (operation s) of Inl e \<Rightarrow> isRetryable e | Inr v \<Rightarrow> False)
      \<and> \<not> strictEquals (count (Suc a)) maxRetries)"
  by (simp add: retried_def outcome_0)

lemma retried_Suc:
  "retried operation s maxRetries a (Suc k) = retried operation (snd (operation s)) maxRetries (Suc a) k"
  by (simp add: retried_def outcome_Suc)

lemma all_less_Suc_shift: "(\<forall>k<Suc c. P k) = (P 0 \<and> (\<forall>k<c. P (Suc k)))"
  by (auto simp: less_Suc_eq_0_disj)

lemma ended_by_attempt_Suc:
  assumes "retried operation s maxRetries a 0"
    and "ended_by_attempt operation rnd maxRetries baseDelay (Suc a) (snd (operation s))
           (evs @ [Invoke, Sleep (backoff baseDelay rnd (Suc a))]) r d"
  shows "ended_by_attempt operation rnd maxRetries baseDelay a s evs r (Suc d)"
  using assms
  by (simp add: ended_by_attempt_def outcome_Suc states_Suc retryLog_Suc all_less_Suc_shift
        retried_Suc cong: sum.case_cong)

lemma ended_by_condition_Suc:
  assumes "retried operation s maxRetries a 0"
    and "ended_by_condition operation rnd maxRetries baseDelay (Suc a) (snd (operation s))
           (evs @ [Invoke, Sleep (backoff baseDelay rnd (Suc a))]) r c"
  shows "ended_by_condition operation rnd maxRetries baseDelay a s evs r (Suc c)"
  using assms
  by (simp add: ended_by_condition_def states_Suc retryLog_Suc all_less_Suc_shift retried_Suc)

lemma retryLoop_run:
  "retryLoop fuel operation rnd maxRetries baseDelay a s evs = Some r \<Longrightarrow>
   (\<exists>d. ended_by_attempt operation rnd maxRetries baseDelay a s evs r d)
   \<or> (\<exists>c. ended_by_condition operation rnd maxRetries baseDelay a s evs r c)"
proof (induction fuel arbitrary: a s evs)
  case 0
  then show ?case by simp
next
  case (Suc fuel)
  show ?case
  proof (cases "lessThan (count a) maxRetries")
    case False
    with Suc.prems have "ended_by_condition operation rnd maxRetries baseDelay a s evs r 0"
      by (auto simp: ended_by_condition_def states_0 retryLog_0)
    then show ?thesis by blast
  next
    case lt: True
    obtain x s1 where op: "operation s = (x, s1)" by (cases "operation s")
    show ?thesis
    proof (cases x)
      case (Inr v)
      with Suc.prems lt op
      have "ended_by_attempt operation rnd maxRetries baseDelay a s evs r 0"
        by (auto simp: ended_by_attempt_def states_Suc states_0 outcome_0 retryLog_0)
      then show ?thesis by blast
    next
      case (Inl e)
      show ?thesis
      proof (cases "strictEquals (count (Suc a)) maxRetries \<or> \<not> isRetryable e")
        case True
        with Suc.prems lt op Inl
        have "ended_by_attempt operation rnd maxRetries baseDelay a s evs r 0"
          by (auto simp: ended_by_attempt_def states_Suc states_0 outcome_0 retryLog_0
                split: if_splits)
        then show ?thesis by blast
      next
        case False
        with lt op Inl have r0: "retried operation s maxRetries a 0"
          by (simp add: retried_0)
        from False Suc.prems lt op Inl
        have "retryLoop fuel operation rnd maxRetries baseDelay (Suc a) (snd (operation s))
            (evs @ [Invoke, Sleep (backoff baseDelay rnd (Suc a))]) = Some r"
          by (simp add: backoff_def Let_def)
        from Suc.IH [OF this] show ?thesis
          using ended_by_attempt_Suc [OF r0] ended_by_condition_Suc [OF r0] by blast
      qed
    qed
  qed
qed

lemma retryLoop_top:
  assumes "retryWithExponentialBackoff fuel operation rnd maxRetries baseDelay s = Some (res, s', evs)"
  obtains (attempt) d where "res = outcome operation s d" "s' = states operation s (Suc d)"
      "evs = retryLog baseDelay rnd 0 d @ [Invoke]" "\<forall>k<d. retried operation s maxRetries 0 k"
      "lessThan (count d) maxRetries"
      "case outcome operation s d of Inr v \<Rightarrow> True
       | Inl e \<Rightarrow> strictEquals (count (Suc d)) maxRetries \<or> \<not> isRetryable e"
    | (condition) c where "res = Inl (Error ''Maximum retry attempts reached'')"
      "s' = states operation s c" "evs = retryLog baseDelay rnd 0 c"
      "\<forall>k<c. retried operation s maxRetries 0 k" "\<not> lessThan (count c) maxRetries"
proof -
  from retryLoop_run [OF assms [unfolded retryWithExponentialBackoff_def]]
  consider d where "ended_by_attempt operation rnd maxRetries baseDelay 0 s [] (res, s', evs) d"
    | c where "ended_by_condition operation rnd maxRetries baseDelay 0 s [] (res, s', evs) c"
    by blast
  then show ?thesis
  proof cases
    case 1
    then show ?thesis using attempt [of d]
      by (simp add: ended_by_attempt_def cong: sum.case_cong)
  next
    case 2
    then show ?thesis using condition [of c] by (simp add: ended_by_condition_def)
  qed
qed

lemma lessThan_count: "lessThan (count a) (count b) = (a < b)"
  by (simp add: count_def)

lemma strictEquals_count: "strictEquals (count a) (count b) = (a = b)"
  by (simp add: count_def strictEquals_def)

lemma lessThan_count_Finite: "lessThan (count a) (Finite r) \<Longrightarrow> Suc a \<le> nat \<lceil>r\<rceil>"
  by (simp add: count_def) linarith

lemma retryLoop_returns:
  "maxRetries \<noteq> Infinity \<Longrightarrow> iterations maxRetries - a < fuel \<Longrightarrow>
   \<exists>r. retryLoop fuel operation rnd maxRetries baseDelay a s evs = Some r"
proof (induction fuel arbitrary: a s evs)
  case 0
  then show ?case by simp
next
  case (Suc fuel)
  show ?case
  proof (cases "lessThan (count a) maxRetries")
    case False
    then show ?thesis by simp
  next
    case True
    with Suc.prems(1) obtain r where r: "maxRetries = Finite r"
      by (cases maxRetries) (simp_all add: count_def)
    with True have "Suc a \<le> nat \<lceil>r\<rceil>" by (simp add: lessThan_count_Finite)
    with Suc.prems(2) r have "iterations maxRetries - Suc a < fuel" by simp
    from Suc.IH [OF Suc.prems(1) this] show ?thesis
      by (auto simp: Let_def split: prod.splits sum.splits)
  qed
qed

lemma retryLoop_more_fuel:
  "retryLoop fuel operation rnd maxRetries baseDelay a s evs = Some r \<Longrightarrow>
   retryLoop (fuel + n) operation rnd maxRetries baseDelay a s evs = Some r"
proof (induction fuel arbitrary: a s evs)
  case 0
  then show ?case by simp
next
  case (Suc fuel)
  then show ?case
    by (auto simp: Let_def split: prod.splits sum.splits if_splits)
qed

lemma whole_number_not_by_condition:
  assumes "maxRetries = count m" and "1 \<le> m"
    and "\<forall>k<c. retried operation s maxRetries 0 k" and "\<not> lessThan (count c) maxRetries"
  shows False
proof (cases c)
  case 0
  with assms show False by (simp add: lessThan_count)
next
  case (Suc c')
  with assms(3) have "retried operation s maxRetries 0 c'" by simp
  with assms(1) have "c' < m" "Suc c' \<noteq> m"
    by (simp_all add: retried_def lessThan_count strictEquals_count)
  moreover from assms(1,4) Suc have "\<not> Suc c' < m" by (simp add: lessThan_count)
  ultimately show False by simp
qed

lemma retried_outcome:
  "retried operation s maxRetries a k \<Longrightarrow> \<exists>e. outcome operation s k = Inl e \<and> isRetryable e"
  by (simp add: retried_def split: sum.splits)

lemma isRetryable_cases:
  "isRetryable x \<Longrightarrow>
   (\<exists>m. x = Mpesa (NetworkError m)) \<or> (\<exists>m mr cr. x = Mpesa (StkPushError m (Some ''17'') mr cr))"
  by (cases x rule: isRetryable.cases) auto

lemma terminal_not_retryable:
  "name e = ''ValidationError'' \<or> name e = ''AuthenticationError'' \<Longrightarrow> \<not> isRetryable (Mpesa e)"
  by (cases e) auto


lemma states_alwaysNetworkError: "states alwaysNetworkError 0 k = k"
  by (induction k) (simp_all add: states_def alwaysNetworkError_def)

lemma outcome_alwaysNetworkError:
  "outcome alwaysNetworkError 0 k = Inl (Mpesa (NetworkError (replicate k CHR ''x'')))"
  by (simp add: outcome_def states_alwaysNetworkError alwaysNetworkError_def)

lemma states_networkThenValidationError: "states networkThenValidationError 0 k = k"
  by (induction k) (simp_all add: states_def networkThenValidationError_def)

lemma retryLoop_ends_at_terminal:
  "outcome operation s k = Inl x \<Longrightarrow> \<not> isRetryable x \<Longrightarrow> k < fuel \<Longrightarrow>
   \<exists>r. retryLoop fuel operation rnd maxRetries baseDelay a s evs = Some r"
proof (induction fuel arbitrary: k a s evs)
  case 0
  then show ?case by simp
next
  case (Suc fuel)
  obtain y s1 where op: "operation s = (y, s1)" by (cases "operation s")
  show ?case
  proof (cases "lessThan (count a) maxRetries \<and> (\<exists>e. y = Inl e \<and> isRetryable e)
      \<and> \<not> strictEquals (count (Suc a)) maxRetries")
    case False
    with op show ?thesis by (cases y) (auto simp: Let_def)
  next
    case True
    then obtain e where e: "y = Inl e" "isRetryable e" by blast
    have "k \<noteq> 0"
    proof
      assume "k = 0"
      with Suc.prems(1) op e have "x = e" by (simp add: outcome_0)
      with Suc.prems(2) e show False by simp
    qed
    then obtain k' where k': "k = Suc k'" by (cases k) auto
    with Suc.prems op have "outcome operation s1 k' = Inl x" "k' < fuel"
      by (simp_all add: outcome_Suc)
    from Suc.IH [OF this(1) Suc.prems(2) this(2)] True op e show ?thesis
      by (simp add: Let_def)
  qed
qed

subsection \<open>The claims about retries\<close>




text \<open>
  Claim C2, as the code has it. With a finite \<open>maxRetries\<close> the operation is invoked at most
  \<open>\<lceil>maxRetries\<rceil>\<close> times in all. With \<open>maxRetries\<close> a whole number of at least 1 it is
  invoked at least once and at most \<open>maxRetries\<close> times, that is, there are at most
  \<open>maxRetries - 1\<close> attempts after the first, and what the function returns or throws is
  what the last invocation returned or threw, itself. When moreover every attempt fails
  with an error the function retries on, the run ends (within \<open>maxRetries + 1\<close>
  iterations), the operation has been invoked exactly \<open>maxRetries\<close> times and the error
  thrown is that of the last invocation. Every run with a \<open>maxRetries\<close> that is not
  infinite ends, within \<open>\<lceil>maxRetries\<rceil> + 1\<close> iterations.
\<close>

theorem retry_attempts_in_total:
  "(retryWithExponentialBackoff fuel operation rnd maxRetries baseDelay s = Some (res, s', evs)
      \<and> maxRetries = Finite r \<longrightarrow> invocations evs \<le> nat \<lceil>r\<rceil>)
   \<and> (retryWithExponentialBackoff fuel operation rnd maxRetries baseDelay s = Some (res, s', evs)
      \<and> maxRetries = count m \<and> 1 \<le> m \<longrightarrow>
        1 \<le> invocations evs \<and> invocations evs \<le> m
        \<and> res = outcome operation s (invocations evs - 1)
        \<and> s' = states operation s (invocations evs))
   \<and> (maxRetries = count m \<and> 1 \<le> m \<and> m < fuel
      \<and> (\<forall>k<m. \<exists>e. outcome operation s k = Inl e \<and> isRetryable e) \<longrightarrow>
        retryWithExponentialBackoff fuel operation rnd maxRetries baseDelay s
          = Some (outcome operation s (m - 1), states operation s m,
                  retryLog baseDelay rnd 0 (m - 1) @ [Invoke]))
   \<and> (maxRetries \<noteq> Infinity \<and> iterations maxRetries < fuel \<longrightarrow>
        (\<exists>res s' evs. retryWithExponentialBackoff fuel operation rnd maxRetries baseDelay s
           = Some (res, s', evs)))"
proof -
  have bound: "invocations evs \<le> nat \<lceil>r\<rceil>"
    if run: "retryWithExponentialBackoff fuel operation rnd maxRetries baseDelay s
      = Some (res, s', evs)" and r: "maxRetries = Finite r"
    using run
  proof (cases rule: retryLoop_top)
    case (attempt d)
    with r have "Suc d \<le> nat \<lceil>r\<rceil>" by (simp add: lessThan_count_Finite)
    with attempt show ?thesis by (simp add: invocations_append invocations_retryLog)
  next
    case (condition c)
    show ?thesis
    proof (cases c)
      case 0
      with condition show ?thesis by (simp add: retryLog_0)
    next
      case (Suc c')
      with condition(4) have "retried operation s maxRetries 0 c'" by simp
      with r have "Suc c' \<le> nat \<lceil>r\<rceil>" by (simp add: retried_def lessThan_count_Finite)
      with condition Suc show ?thesis by (simp add: invocations_retryLog)
    qed
  qed
  have last: "1 \<le> invocations evs \<and> invocations evs \<le> m
        \<and> res = outcome operation s (invocations evs - 1)
        \<and> s' = states operation s (invocations evs)"
    if run: "retryWithExponentialBackoff fuel operation rnd maxRetries baseDelay s
      = Some (res, s', evs)" and m: "maxRetries = count m" "1 \<le> m"
    for res s' evs
    using run
  proof (cases rule: retryLoop_top)
    case (attempt d)
    with m have "d < m" by (simp add: lessThan_count)
    with attempt show ?thesis by (simp add: invocations_append invocations_retryLog)
  next
    case (condition c)
    with m whole_number_not_by_condition [of maxRetries m c operation s] show ?thesis by simp
  qed
  have all_fail: "retryWithExponentialBackoff fuel operation rnd maxRetries baseDelay s
          = Some (outcome operation s (m - 1), states operation s m,
                  retryLog baseDelay rnd 0 (m - 1) @ [Invoke])"
    if m: "maxRetries = count m" "1 \<le> m" and fuel: "m < fuel"
      and fails: "\<forall>k<m. \<exists>e. outcome operation s k = Inl e \<and> isRetryable e"
  proof -
    from m fuel have "maxRetries \<noteq> Infinity" "iterations maxRetries - 0 < fuel"
      by (simp_all add: count_def)
    from retryLoop_returns [OF this] obtain res1 s1 evs1
      where run: "retryWithExponentialBackoff fuel operation rnd maxRetries baseDelay s
        = Some (res1, s1, evs1)"
      unfolding retryWithExponentialBackoff_def by (metis prod_cases3)
    from run have "(res1, s1, evs1) = (outcome operation s (m - 1), states operation s m,
                  retryLog baseDelay rnd 0 (m - 1) @ [Invoke])"
    proof (cases rule: retryLoop_top)
      case (attempt d)
      with m have dm: "d < m" by (simp add: lessThan_count)
      with fails obtain e where e: "outcome operation s d = Inl e" "isRetryable e" by blast
      with attempt(6) m have "Suc d = m" by (simp add: strictEquals_count)
      with attempt show ?thesis by auto
    next
      case (condition c)
      with m whole_number_not_by_condition [of maxRetries m c operation s] show ?thesis by simp
    qed
    with run show ?thesis by simp
  qed
  have returns: "\<exists>res s' evs. retryWithExponentialBackoff fuel operation rnd maxRetries baseDelay s
           = Some (res, s', evs)"
    if "maxRetries \<noteq> Infinity" "iterations maxRetries < fuel"
  proof -
    from that have "iterations maxRetries - 0 < fuel" by simp
    from retryLoop_returns [OF that(1) this] obtain res1 s1 evs1
      where "retryWithExponentialBackoff fuel operation rnd maxRetries baseDelay s
        = Some (res1, s1, evs1)"
      unfolding retryWithExponentialBackoff_def by (metis prod_cases3)
    then show ?thesis by blast
  qed
  from bound last all_fail returns show ?thesis by blast
qed

text \<open>
  Witness of C2: with the documented \<open>maxRetries = 3\<close> the operation that always fails
  with a network error is invoked 3 times, and the error thrown is the one of the third
  invocation (message \<open>xx\<close>).
\<close>

theorem retry_attempts_in_total_witness:
  "MPESAJS_MAX_RETRIES = count 3 \<and> (1::nat) \<le> 3 \<and> (3::nat) < 5
   \<and> outcome alwaysNetworkError 0 0 = Inl (Mpesa (NetworkError []))
   \<and> outcome alwaysNetworkError 0 1 = Inl (Mpesa (NetworkError ''x''))
   \<and> outcome alwaysNetworkError 0 2 = Inl (Mpesa (NetworkError ''xx''))
   \<and> retryWithExponentialBackoff 5 alwaysNetworkError (\<lambda>k. 0) MPESAJS_MAX_RETRIES (Finite 1000) 0
     = Some (Inl (Mpesa (NetworkError ''xx'')), 3,
         [Invoke, Sleep (Finite 1000), Invoke, Sleep (Finite 2000), Invoke])
   \<and> invocations [Invoke, Sleep (Finite 1000), Invoke, Sleep (Finite 2000), Invoke] = 3"
proof -
  note o = outcome_alwaysNetworkError
  have h: "\<forall>k<3. \<exists>e. outcome alwaysNetworkError 0 k = Inl e \<and> isRetryable e"
    by (simp add: o)
  note s = states_alwaysNetworkError
  have m: "MPESAJS_MAX_RETRIES = count 3"
    by (simp add: MPESAJS_MAX_RETRIES_def count_def)
  from retry_attempts_in_total [of 5 alwaysNetworkError "\<lambda>k. 0" MPESAJS_MAX_RETRIES "Finite 1000" 0
      "Inl (Mpesa (NetworkError ''xx''))" 3
      "[Invoke, Sleep (Finite 1000), Invoke, Sleep (Finite 2000), Invoke]" 3 3] h m
  have "retryWithExponentialBackoff 5 alwaysNetworkError (\<lambda>k. 0) MPESAJS_MAX_RETRIES (Finite 1000) 0
     = Some (outcome alwaysNetworkError 0 (3 - 1), states alwaysNetworkError 0 3,
             retryLog (Finite 1000) (\<lambda>k. 0) 0 (3 - 1) @ [Invoke])"
    by simp
  then show ?thesis
    using m by (simp add: o s retryLog_def backoff_def eval_nat_numeral)
qed

text \<open>
  Counterexample to C2 as stated: with the documented \<open>maxRetries = 3\<close> an operation that
  fails on every attempt is invoked 3 times, not 4, and the error thrown is the third.
\<close>

theorem retry_four_invocations_counterexample:
  "retryWithExponentialBackoff 5 alwaysNetworkError (\<lambda>k. 0) MPESAJS_MAX_RETRIES
       MPESAJS_INITIAL_DELAY_MS 0
     = Some (Inl (Mpesa (NetworkError ''xx'')), 3,
         [Invoke, Sleep (Finite 1000), Invoke, Sleep (Finite 2000), Invoke])
   \<and> invocations [Invoke, Sleep (Finite 1000), Invoke, Sleep (Finite 2000), Invoke] = 3
   \<and> invocations [Invoke, Sleep (Finite 1000), Invoke, Sleep (Finite 2000), Invoke] \<noteq> 4"
  by (simp add: retryWithExponentialBackoff_def eval_nat_numeral alwaysNetworkError_def
        count_def strictEquals_def MPESAJS_MAX_RETRIES_def MPESAJS_INITIAL_DELAY_MS_def)

text \<open>
  With \<open>maxRetries\<close> not a whole number, \<open>attempts === maxRetries\<close> never holds: at 2.5 the
  operation is invoked 3 times, the function sleeps after the last attempt too, and what
  it throws is the plain \<open>Error\<close>, not the error of the operation.
\<close>

lemma retry_not_whole_number_example: "retryWithExponentialBackoff 4 alwaysNetworkError (\<lambda>k. 0) (Finite 2.5)
       (Finite 1000) 0
     = Some (Inl (Error ''Maximum retry attempts reached''), 3,
         [Invoke, Sleep (Finite 1000), Invoke, Sleep (Finite 2000), Invoke, Sleep (Finite 4000)])"
  by (simp add: retryWithExponentialBackoff_def eval_nat_numeral alwaysNetworkError_def
        count_def strictEquals_def)

text \<open>
  Claim C3. In every run that ends: every attempt after which the function waited had
  failed with a network error or with an STK Push error of response code 17; and an
  attempt that fails with a validation or an authentication error is the last one: the
  function throws that error as it is, and the events end with that attempt, with no
  delay after it. When the first attempt fails so (with \<open>0 < maxRetries\<close>, without which
  there is no first attempt), the run ends at once: one invocation, no delay. And whatever
  \<open>maxRetries\<close> is, a run in which attempt \<open>k\<close> would fail so ends within \<open>k + 1\<close>
  iterations.
\<close>

theorem terminal_errors_not_retried:
  "(retryWithExponentialBackoff fuel operation rnd maxRetries baseDelay s = Some (res, s', evs) \<longrightarrow>
      (\<forall>k. k < length (sleeps evs) \<longrightarrow>
         (\<exists>m. outcome operation s k = Inl (Mpesa (NetworkError m))) \<or>
         (\<exists>m mr cr. outcome operation s k = Inl (Mpesa (StkPushError m (Some ''17'') mr cr))))
      \<and> (\<forall>k e. k < invocations evs \<and> outcome operation s k = Inl (Mpesa e)
            \<and> (name e = ''ValidationError'' \<or> name e = ''AuthenticationError'') \<longrightarrow>
            invocations evs = Suc k \<and> res = Inl (Mpesa e) \<and> s' = states operation s (Suc k)
            \<and> evs = retryLog baseDelay rnd 0 k @ [Invoke]))
   \<and> (lessThan (count 0) maxRetries \<and> fst (operation s) = Inl (Mpesa e)
        \<and> (name e = ''ValidationError'' \<or> name e = ''AuthenticationError'') \<longrightarrow>
        retryWithExponentialBackoff (Suc fuel) operation rnd maxRetries baseDelay s
          = Some (Inl (Mpesa e), snd (operation s), [Invoke]))
   \<and> (outcome operation s k = Inl (Mpesa e)
        \<and> (name e = ''ValidationError'' \<or> name e = ''AuthenticationError'') \<and> k < fuel \<longrightarrow>
        (\<exists>res s' evs. retryWithExponentialBackoff fuel operation rnd maxRetries baseDelay s
           = Some (res, s', evs)))"
proof -
  have waited: "(\<exists>m. outcome operation s k = Inl (Mpesa (NetworkError m))) \<or>
         (\<exists>m mr cr. outcome operation s k = Inl (Mpesa (StkPushError m (Some ''17'') mr cr)))"
    if run: "retryWithExponentialBackoff fuel operation rnd maxRetries baseDelay s
      = Some (res, s', evs)" and k: "k < length (sleeps evs)" for k
  proof -
    from run k have "retried operation s maxRetries 0 k"
      by (cases rule: retryLoop_top) (simp_all add: sleeps_append sleeps_retryLog)
    then obtain x where "outcome operation s k = Inl x" "isRetryable x"
      using retried_outcome [of operation s maxRetries 0 k] by blast
    then show ?thesis using isRetryable_cases [of x] by auto
  qed
  have terminal: "invocations evs = Suc k \<and> res = Inl (Mpesa e) \<and> s' = states operation s (Suc k)
            \<and> evs = retryLog baseDelay rnd 0 k @ [Invoke]"
    if run: "retryWithExponentialBackoff fuel operation rnd maxRetries baseDelay s
      = Some (res, s', evs)" and k: "k < invocations evs"
      and e: "outcome operation s k = Inl (Mpesa e)"
        "name e = ''ValidationError'' \<or> name e = ''AuthenticationError''" for k e
  proof -
    have nr: "\<not> retried operation s maxRetries 0 k"
      using e terminal_not_retryable [of e] retried_outcome [of operation s maxRetries 0 k]
      by auto
    from run show ?thesis
    proof (cases rule: retryLoop_top)
      case (attempt d)
      with k have "k \<le> d" by (simp add: invocations_append invocations_retryLog)
      with attempt(4) nr have "k = d" by (cases "k < d") auto
      with attempt e show ?thesis by (simp add: invocations_append invocations_retryLog)
    next
      case (condition c)
      with k nr show ?thesis by (simp add: invocations_retryLog)
    qed
  qed
  have first: "retryWithExponentialBackoff (Suc fuel) operation rnd maxRetries baseDelay s
          = Some (Inl (Mpesa e), snd (operation s), [Invoke])"
    if "lessThan (count 0) maxRetries" "fst (operation s) = Inl (Mpesa e)"
      "name e = ''ValidationError'' \<or> name e = ''AuthenticationError''"
  proof -
    obtain x s1 where op: "operation s = (x, s1)" by (cases "operation s")
    with that(2) have x: "x = Inl (Mpesa e)" by simp
    from that(1) terminal_not_retryable [OF that(3)] show ?thesis
      by (simp add: retryWithExponentialBackoff_def op x)
  qed
  have p12: "retryWithExponentialBackoff fuel operation rnd maxRetries baseDelay s
        = Some (res, s', evs) \<longrightarrow>
      (\<forall>k. k < length (sleeps evs) \<longrightarrow>
         (\<exists>m. outcome operation s k = Inl (Mpesa (NetworkError m))) \<or>
         (\<exists>m mr cr. outcome operation s k = Inl (Mpesa (StkPushError m (Some ''17'') mr cr))))
      \<and> (\<forall>k e. k < invocations evs \<and> outcome operation s k = Inl (Mpesa e)
            \<and> (name e = ''ValidationError'' \<or> name e = ''AuthenticationError'') \<longrightarrow>
            invocations evs = Suc k \<and> res = Inl (Mpesa e) \<and> s' = states operation s (Suc k)
            \<and> evs = retryLog baseDelay rnd 0 k @ [Invoke])"
  proof (intro impI conjI allI)
    fix k assume "retryWithExponentialBackoff fuel operation rnd maxRetries baseDelay s
        = Some (res, s', evs)" "k < length (sleeps evs)"
    then show "(\<exists>m. outcome operation s k = Inl (Mpesa (NetworkError m))) \<or>
         (\<exists>m mr cr. outcome operation s k = Inl (Mpesa (StkPushError m (Some ''17'') mr cr)))"
      by (rule waited)
  next
    fix k e assume r: "retryWithExponentialBackoff fuel operation rnd maxRetries baseDelay s
        = Some (res, s', evs)"
      and a: "k < invocations evs \<and> outcome operation s k = Inl (Mpesa e)
            \<and> (name e = ''ValidationError'' \<or> name e = ''AuthenticationError'')"
    from a have k: "k < invocations evs" and o: "outcome operation s k = Inl (Mpesa e)"
      and n: "name e = ''ValidationError'' \<or> name e = ''AuthenticationError''" by blast+
    from terminal [OF r k o n]
    show "invocations evs = Suc k" "res = Inl (Mpesa e)" "s' = states operation s (Suc k)"
      "evs = retryLog baseDelay rnd 0 k @ [Invoke]" by blast+
  qed
  have p3: "lessThan (count 0) maxRetries \<and> fst (operation s) = Inl (Mpesa e)
        \<and> (name e = ''ValidationError'' \<or> name e = ''AuthenticationError'') \<longrightarrow>
        retryWithExponentialBackoff (Suc fuel) operation rnd maxRetries baseDelay s
          = Some (Inl (Mpesa e), snd (operation s), [Invoke])"
    using first by blast
  have p4: "outcome operation s k = Inl (Mpesa e)
        \<and> (name e = ''ValidationError'' \<or> name e = ''AuthenticationError'') \<and> k < fuel \<longrightarrow>
        (\<exists>res s' evs. retryWithExponentialBackoff fuel operation rnd maxRetries baseDelay s
           = Some (res, s', evs))"
  proof (intro impI)
    assume a: "outcome operation s k = Inl (Mpesa e)
        \<and> (name e = ''ValidationError'' \<or> name e = ''AuthenticationError'') \<and> k < fuel"
    then have "\<not> isRetryable (Mpesa e)" using terminal_not_retryable [of e] by blast
    with a retryLoop_ends_at_terminal [of operation s k "Mpesa e" fuel rnd maxRetries baseDelay 0 "[]"]
    obtain r where "retryWithExponentialBackoff fuel operation rnd maxRetries baseDelay s = Some r"
      unfolding retryWithExponentialBackoff_def by blast
    then show "\<exists>res s' evs. retryWithExponentialBackoff fuel operation rnd maxRetries baseDelay s
           = Some (res, s', evs)"
      by (metis prod_cases3)
  qed
  from p12 p3 p4 show ?thesis by (intro conjI)
qed

text \<open>
  Witness of C3: the operation that fails with a network error and then with the
  validation error of the amount is invoked twice, with one delay in between, and the
  validation error comes out; the operation that fails with the validation error at once
  is invoked once, with no delay.
\<close>

theorem terminal_errors_not_retried_witness:
  "retryWithExponentialBackoff 9 networkThenValidationError (\<lambda>k. 0) (Finite 5) (Finite 1000) 0
     = Some (Inl (Mpesa (ValidationError ''Amount must be greater than 0'' (Some ''amount''))), 2,
         [Invoke, Sleep (Finite 1000), Invoke])
   \<and> (0::nat) < length (sleeps [Invoke, Sleep (Finite 1000), Invoke])
   \<and> outcome networkThenValidationError 0 0 = Inl (Mpesa (NetworkError ''timeout''))
   \<and> (1::nat) < invocations [Invoke, Sleep (Finite 1000), Invoke]
   \<and> outcome networkThenValidationError 0 1
       = Inl (Mpesa (ValidationError ''Amount must be greater than 0'' (Some ''amount'')))
   \<and> invocations [Invoke, Sleep (Finite 1000), Invoke] = Suc 1
   \<and> lessThan (count 0) (Finite 3)
   \<and> fst (alwaysValidationError 0)
       = Inl (Mpesa (ValidationError ''Amount must be greater than 0'' (Some ''amount'')))
   \<and> retryWithExponentialBackoff (Suc 0) alwaysValidationError (\<lambda>k. 0) (Finite 3) (Finite 1000) 0
     = Some (Inl (Mpesa (ValidationError ''Amount must be greater than 0'' (Some ''amount''))),
             1, [Invoke])"
proof -
  have r: "retryWithExponentialBackoff 9 networkThenValidationError (\<lambda>k. 0) (Finite 5) (Finite 1000) 0
     = Some (Inl (Mpesa (ValidationError ''Amount must be greater than 0'' (Some ''amount''))), 2,
         [Invoke, Sleep (Finite 1000), Invoke])"
    by (simp add: retryWithExponentialBackoff_def eval_nat_numeral networkThenValidationError_def
          count_def strictEquals_def)
  have o0: "outcome networkThenValidationError 0 0 = Inl (Mpesa (NetworkError ''timeout''))"
    by (simp add: outcome_def states_networkThenValidationError networkThenValidationError_def)
  have o1: "outcome networkThenValidationError 0 1
       = Inl (Mpesa (ValidationError ''Amount must be greater than 0'' (Some ''amount'')))"
    by (simp add: outcome_def states_networkThenValidationError networkThenValidationError_def)
  have f: "fst (alwaysValidationError 0)
       = Inl (Mpesa (ValidationError ''Amount must be greater than 0'' (Some ''amount'')))"
    by (simp add: alwaysValidationError_def)
  have l: "lessThan (count 0) (Finite 3)" by (simp add: count_def)
  let ?V = "ValidationError ''Amount must be greater than 0'' (Some ''amount'')"
  have prem: "1 < invocations [Invoke, Sleep (Finite 1000), Invoke]
      \<and> outcome networkThenValidationError 0 1 = Inl (Mpesa ?V)
      \<and> (name ?V = ''ValidationError'' \<or> name ?V = ''AuthenticationError'')"
    using o1 by simp
  note t1 = terminal_errors_not_retried [of 9 networkThenValidationError "\<lambda>k. 0" "Finite 5"
      "Finite 1000" 0 "Inl (Mpesa ?V)" 2 "[Invoke, Sleep (Finite 1000), Invoke]" ?V]
  note t2 = t1 [THEN conjunct1, THEN mp, OF r, THEN conjunct2, THEN spec, THEN spec, THEN mp,
      OF prem]
  from t2 have a: "invocations [Invoke, Sleep (Finite 1000), Invoke] = Suc 1"
    by (rule conjunct1)
  have prem3: "lessThan (count 0) (Finite 3) \<and> fst (alwaysValidationError 0) = Inl (Mpesa ?V)
      \<and> (name ?V = ''ValidationError'' \<or> name ?V = ''AuthenticationError'')"
    using l f by simp
  note t3 = terminal_errors_not_retried [of 0 alwaysValidationError "\<lambda>k. 0" "Finite 3"
      "Finite 1000" 0 "Inl (Mpesa ?V)" 1 "[Invoke]" ?V]
  from t3 [THEN conjunct2, THEN conjunct1, THEN mp, OF prem3]
  have b: "retryWithExponentialBackoff (Suc 0) alwaysValidationError (\<lambda>k. 0) (Finite 3) (Finite 1000) 0
     = Some (Inl (Mpesa ?V), 1, [Invoke])"
    by (simp add: alwaysValidationError_def)
  have i: "(0::nat) < length (sleeps [Invoke, Sleep (Finite 1000), Invoke])"
    "(1::nat) < invocations [Invoke, Sleep (Finite 1000), Invoke]" by simp_all
  from r i o0 o1 a l f b show ?thesis by (simp only: simp_thms)
qed

subsection \<open>The taxonomy\<close>

lemma shape_in_taxonomy: "shape e \<in> set spec_taxonomy"
  by (cases e) (simp_all add: spec_taxonomy_def shape_def)

lemma taxonomy_realised:
  "spec_taxonomy = map shape
     [AuthenticationError [] None, NetworkError [], ValidationError [] None,
      StkPushError [] None None None, PayoutError [] None None None None,
      RegisterUrlError [] None None]"
  by (simp add: spec_taxonomy_def shape_def)

lemma taxonomy_exact: "range shape = set spec_taxonomy"
proof
  show "range shape \<subseteq> set spec_taxonomy" using shape_in_taxonomy by blast
  have "set spec_taxonomy = shape ` set [AuthenticationError [] None, NetworkError [],
      ValidationError [] None, StkPushError [] None None None,
      PayoutError [] None None None None, RegisterUrlError [] None None]"
    by (subst taxonomy_realised) (rule set_map)
  then show "set spec_taxonomy \<subseteq> range shape" by blast
qed

text \<open>
  Claim C8, as the code has it. The classes of the taxonomy and the properties they
  declare are exactly the six variants of the specification with their fields. The retry
  function constructs no taxonomy error: what it throws is the error of the operation's
  last invocation, as it is, or the plain \<open>Error\<close> with the message
  \<open>Maximum retry attempts reached\<close>; with \<open>maxRetries\<close> a whole number of at least 1 it
  is always the former.
\<close>

theorem taxonomy_and_pass_through:
  "range shape = set spec_taxonomy
   \<and> length spec_taxonomy = 6 \<and> distinct (map fst spec_taxonomy)
   \<and> (retryWithExponentialBackoff fuel operation rnd maxRetries baseDelay s = Some (Inl x, s', evs) \<longrightarrow>
        (1 \<le> invocations evs \<and> outcome operation s (invocations evs - 1) = Inl x
           \<and> evs = retryLog baseDelay rnd 0 (invocations evs - 1) @ [Invoke])
        \<or> (x = Error ''Maximum retry attempts reached''
           \<and> evs = retryLog baseDelay rnd 0 (invocations evs)))
   \<and> (retryWithExponentialBackoff fuel operation rnd maxRetries baseDelay s = Some (Inl x, s', evs)
        \<and> maxRetries = count m \<and> 1 \<le> m \<longrightarrow>
        1 \<le> invocations evs \<and> outcome operation s (invocations evs - 1) = Inl x)"
proof -
  have thrown: "(1 \<le> invocations evs \<and> outcome operation s (invocations evs - 1) = Inl x
           \<and> evs = retryLog baseDelay rnd 0 (invocations evs - 1) @ [Invoke])
        \<or> (x = Error ''Maximum retry attempts reached''
           \<and> evs = retryLog baseDelay rnd 0 (invocations evs))"
    if run: "retryWithExponentialBackoff fuel operation rnd maxRetries baseDelay s
      = Some (Inl x, s', evs)"
    using run
  proof (cases rule: retryLoop_top)
    case (attempt d)
    then show ?thesis by (simp add: invocations_append invocations_retryLog)
  next
    case (condition c)
    then show ?thesis by (simp add: invocations_retryLog)
  qed
  have whole: "1 \<le> invocations evs \<and> outcome operation s (invocations evs - 1) = Inl x"
    if run: "retryWithExponentialBackoff fuel operation rnd maxRetries baseDelay s
      = Some (Inl x, s', evs)" and m: "maxRetries = count m" "1 \<le> m"
    using run
  proof (cases rule: retryLoop_top)
    case (attempt d)
    then show ?thesis by (simp add: invocations_append invocations_retryLog)
  next
    case (condition c)
    with m whole_number_not_by_condition [of maxRetries m c operation s] show ?thesis by simp
  qed
  have l: "length spec_taxonomy = 6" and d: "distinct (map fst spec_taxonomy)"
    by (simp_all add: spec_taxonomy_def)
  have p1: "retryWithExponentialBackoff fuel operation rnd maxRetries baseDelay s
        = Some (Inl x, s', evs) \<longrightarrow>
        (1 \<le> invocations evs \<and> outcome operation s (invocations evs - 1) = Inl x
           \<and> evs = retryLog baseDelay rnd 0 (invocations evs - 1) @ [Invoke])
        \<or> (x = Error ''Maximum retry attempts reached''
           \<and> evs = retryLog baseDelay rnd 0 (invocations evs))"
    using thrown by (rule impI)
  have p2: "retryWithExponentialBackoff fuel operation rnd maxRetries baseDelay s
        = Some (Inl x, s', evs) \<and> maxRetries = count m \<and> 1 \<le> m \<longrightarrow>
        1 \<le> invocations evs \<and> outcome operation s (invocations evs - 1) = Inl x"
    using whole by blast
  from taxonomy_exact l d p1 p2 show ?thesis by (intro conjI)
qed

text \<open>
  Witness of C8: with \<open>maxRetries = 3\<close> the validation error of the operation comes out
  as it is, and its class and field are in the taxonomy.
\<close>

theorem taxonomy_and_pass_through_witness:
  "retryWithExponentialBackoff 5 alwaysValidationError (\<lambda>k. 0) (Finite 3) (Finite 1000) 0
     = Some (Inl (Mpesa (ValidationError ''Amount must be greater than 0'' (Some ''amount''))),
             1, [Invoke])
   \<and> Finite 3 = count 3 \<and> (1::nat) \<le> 3
   \<and> outcome alwaysValidationError 0 (invocations [Invoke] - 1)
       = Inl (Mpesa (ValidationError ''Amount must be greater than 0'' (Some ''amount'')))
   \<and> shape (ValidationError ''Amount must be greater than 0'' (Some ''amount''))
       \<in> set spec_taxonomy"
proof -
  have r: "retryWithExponentialBackoff 5 alwaysValidationError (\<lambda>k. 0) (Finite 3) (Finite 1000) 0
     = Some (Inl (Mpesa (ValidationError ''Amount must be greater than 0'' (Some ''amount''))),
             1, [Invoke])"
    by (simp add: retryWithExponentialBackoff_def eval_nat_numeral alwaysValidationError_def
          count_def strictEquals_def)
  have c: "Finite 3 = count 3" by (simp add: count_def)
  note t = taxonomy_and_pass_through [of 5 alwaysValidationError "\<lambda>k. 0" "Finite 3" "Finite 1000" 0
      "Mpesa (ValidationError ''Amount must be greater than 0'' (Some ''amount''))" 1 "[Invoke]" 3]
  from t [THEN conjunct2, THEN conjunct2, THEN conjunct2, THEN conjunct2] r c
  have o: "outcome alwaysValidationError 0 (invocations [Invoke] - 1)
       = Inl (Mpesa (ValidationError ''Amount must be greater than 0'' (Some ''amount'')))"
    by simp
  have "shape (ValidationError ''Amount must be greater than 0'' (Some ''amount'')) \<in> range shape"
    by (rule rangeI)
  with t [THEN conjunct1]
  have i: "shape (ValidationError ''Amount must be greater than 0'' (Some ''amount''))
       \<in> set spec_taxonomy"
    by (simp only:)
  from r c o i show ?thesis by (simp only: simp_thms)
qed

text \<open>
  Counterexample to C8 as stated: with \<open>maxRetries = 0\<close> the function throws a plain
  \<open>Error\<close>, which is none of the six variants, without invoking the operation.
\<close>

theorem plain_error_counterexample:
  "retryWithExponentialBackoff 5 alwaysNetworkError (\<lambda>k. 0) (Finite 0) (Finite 1000) 0
     = Some (Inl (Error ''Maximum retry attempts reached''), 0, [])
   \<and> \<not> isMpesaError (Error ''Maximum retry attempts reached'')
   \<and> invocations [] = 0"
  by (simp add: retryWithExponentialBackoff_def eval_nat_numeral count_def)

section \<open>Properties of the token manager\<close>

lemma getToken_refreshed:
  assumes "getToken t0 (Inr (Generated tok ty expiresIn)) t1 tm0 = (res, tm, 1)"
  shows "res = Inr tok \<and> tm = Some \<lparr>token = tok, expiresAt = storedExpiresAt t1 expiresIn\<rparr>"
  using assms
  by (auto simp: getToken_def getToken_begin_def getToken_resume_def Let_def
        storedExpiresAt_def expiry_def
        split: option.splits if_splits begun.splits)

lemma getToken_hit:
  "\<not> greaterEqual (ms now) (expiresAt td) \<Longrightarrow>
   getToken now settled now' (Some td) = (Inr (token td), Some td, 0)"
  by (simp add: getToken_def getToken_begin_def)

lemma getToken_miss:
  "greaterEqual (ms now) (expiresAt td) \<Longrightarrow>
   getToken now settled now' (Some td)
     = (fst (getToken_resume now' settled (Some td)), snd (getToken_resume now' settled (Some td)), 1)"
  by (simp add: getToken_def getToken_begin_def split: prod.splits)

lemma getToken_empty:
  "getToken now settled now' None
     = (fst (getToken_resume now' settled None), snd (getToken_resume now' settled None), 1)"
  by (simp add: getToken_def getToken_begin_def split: prod.splits)

lemma lessThan_not_greaterEqual: "lessThan a b \<Longrightarrow> \<not> greaterEqual a b"
  by (simp add: greaterEqual_def)

lemma validity_left:
  "lessEqual (subN (expiry t1 expiresIn) (ms now)) (Finite 60000) \<Longrightarrow>
   greaterEqual (ms now) (storedExpiresAt t1 expiresIn)"
  by (cases expiresIn)
     (auto simp: lessEqual_def greaterEqual_def storedExpiresAt_def expiry_def subN_def ms_def)

text \<open>
  Claim C4. Let the cache hold a token of a refresh: \<open>generateToken\<close> settled at \<open>t1\<close> with
  a validity of \<open>expiresIn\<close> seconds, so the token expires at \<open>t1 + expiresIn \<times> 1000\<close> and
  the margin is the 60000 ms the code subtracts. A call at a time strictly before the
  expiry minus the margin returns the cached token, calls \<open>generateToken\<close> zero times and
  leaves \<open>tokenData\<close> as it is. A call when the remaining validity is the margin or less
  calls \<open>generateToken\<close> exactly once.
\<close>

theorem cached_token_reuse_and_refresh:
  assumes "getToken t0 (Inr (Generated tok ty expiresIn)) t1 tm0 = (res, tm, 1)"
  shows "(lessThan (ms now) (subN (expiry t1 expiresIn) (Finite 60000)) \<longrightarrow>
            getToken now settled now' tm = (Inr tok, tm, 0))
       \<and> (lessEqual (subN (expiry t1 expiresIn) (ms now)) (Finite 60000) \<longrightarrow>
            snd (snd (getToken now settled now' tm)) = 1)"
proof -
  from getToken_refreshed [OF assms]
  have tm: "tm = Some \<lparr>token = tok, expiresAt = storedExpiresAt t1 expiresIn\<rparr>" by simp
  show ?thesis
    unfolding tm
    using lessThan_not_greaterEqual [of "ms now" "storedExpiresAt t1 expiresIn"]
      validity_left [of t1 expiresIn now]
    by (auto simp: getToken_hit getToken_miss storedExpiresAt_def)
qed

text \<open>
  Witness of C4: a token obtained at time 5 for 3600 s is reused at time 1000; 30 s before
  its expiry, with the margin of 60 s, the call refreshes once.
\<close>

theorem cached_token_reuse_and_refresh_witness:
  "getToken 0 (Inr (Generated ''abc'' ''Bearer'' (Finite 3600))) 5 None
     = (Inr ''abc'', Some \<lparr>token = ''abc'', expiresAt = Finite 3540005\<rparr>, 1)
   \<and> lessThan (ms 1000) (subN (expiry 5 (Finite 3600)) (Finite 60000))
   \<and> getToken 1000 (Inr (Generated ''new'' ''Bearer'' (Finite 3600))) 1007
        (Some \<lparr>token = ''abc'', expiresAt = Finite 3540005\<rparr>)
       = (Inr ''abc'', Some \<lparr>token = ''abc'', expiresAt = Finite 3540005\<rparr>, 0)
   \<and> subN (expiry 5 (Finite 3600)) (ms 3570005) = Finite 30000
   \<and> lessEqual (subN (expiry 5 (Finite 3600)) (ms 3570005)) (Finite 60000)
   \<and> snd (snd (getToken 3570005 (Inr (Generated ''new'' ''Bearer'' (Finite 3600))) 3570009
        (Some \<lparr>token = ''abc'', expiresAt = Finite 3540005\<rparr>))) = 1"
proof -
  have h: "getToken 0 (Inr (Generated ''abc'' ''Bearer'' (Finite 3600))) 5 None
     = (Inr ''abc'', Some \<lparr>token = ''abc'', expiresAt = Finite 3540005\<rparr>, 1)"
    by (simp add: getToken_def getToken_begin_def getToken_resume_def subN_def ms_def)
  have a: "lessThan (ms 1000) (subN (expiry 5 (Finite 3600)) (Finite 60000))"
    by (simp add: expiry_def subN_def ms_def)
  have b: "subN (expiry 5 (Finite 3600)) (ms 3570005) = Finite 30000"
    by (simp add: expiry_def subN_def ms_def)
  have c: "lessEqual (subN (expiry 5 (Finite 3600)) (ms 3570005)) (Finite 60000)"
    by (simp add: b lessEqual_def)
  note t1 = cached_token_reuse_and_refresh [OF h, of 1000
      "Inr (Generated ''new'' ''Bearer'' (Finite 3600))" 1007]
  note t2 = cached_token_reuse_and_refresh [OF h, of 3570005
      "Inr (Generated ''new'' ''Bearer'' (Finite 3600))" 3570009]
  from h a b c t1 [THEN conjunct1, THEN mp, OF a] t2 [THEN conjunct2, THEN mp, OF c]
  show ?thesis by (simp only: simp_thms)
qed




text \<open>
  A cache whose \<open>expiresAt\<close> is \<open>NaN\<close> (the provider's \<open>expiresIn\<close> was) is never
  refreshed: \<open>Date.now() >= NaN\<close> is false at every time.
\<close>

lemma getToken_NaN_never_refreshed:
  "getToken now settled now' (Some \<lparr>token = tok, expiresAt = NaN\<rparr>)
     = (Inr tok, Some \<lparr>token = tok, expiresAt = NaN\<rparr>, 0)"
  by (simp add: getToken_def getToken_begin_def greaterEqual_def)

lemma getToken_sequence_hits:
  "\<forall>c \<in> set calls. lessThan (ms (fst c)) (expiresAt td) \<Longrightarrow>
   getToken_sequence calls (Some td) = (replicate (length calls) (Inr (token td)), Some td, 0)"
proof (induction calls)
  case Nil
  then show ?case by simp
next
  case (Cons c calls)
  obtain now settled now' where c: "c = (now, settled, now')" by (cases c)
  with Cons.prems have "\<not> greaterEqual (ms now) (expiresAt td)"
    by (simp add: lessThan_not_greaterEqual)
  with Cons c show ?case by (simp add: getToken_hit)
qed

lemma step_begin_empty:
  assumes "tokenData m = None" and "i < length (callers m)" and "callers m ! i = Idle"
  shows "exchanges (step provider m (i, now)) = Suc (exchanges m)"
    and "tokenData (step provider m (i, now)) = None"
    and "callers (step provider m (i, now)) ! i = Awaiting (exchanges m)"
  using assms by (simp_all add: getToken_begin_def)

lemma getToken_sequence_first:
  assumes "\<forall>c \<in> set later. lessThan (ms (fst c)) (storedExpiresAt t1 expiresIn)"
  shows "getToken_sequence ((t0, Inr (Generated tok ty expiresIn), t1) # later) None
     = (replicate (Suc (length later)) (Inr tok),
        Some \<lparr>token = tok, expiresAt = storedExpiresAt t1 expiresIn\<rparr>, 1)"
proof -
  let ?td = "\<lparr>token = tok, expiresAt = storedExpiresAt t1 expiresIn\<rparr>"
  have "getToken t0 (Inr (Generated tok ty expiresIn)) t1 None = (Inr tok, Some ?td, 1)"
    by (simp add: getToken_empty getToken_resume_def storedExpiresAt_def expiry_def)
  moreover have "getToken_sequence later (Some ?td)
      = (replicate (length later) (Inr (token ?td)), Some ?td, 0)"
    using assms by (intro getToken_sequence_hits) simp
  ultimately show ?thesis by simp
qed

text \<open>
  Claim C6, as the code has it. For calls that do not overlap, the first of them made
  with an empty cache: the first call issues one exchange, and every later call made
  before the stored \<open>expiresAt\<close> issues none and receives the same token. Calls that
  overlap are not deduplicated: a call that begins while \<open>tokenData\<close> is still empty
  issues an exchange of its own, whatever exchanges are in flight.
\<close>

theorem exchanges_of_sequential_and_overlapping_calls:
  "((\<forall>c \<in> set later. lessThan (ms (fst c)) (storedExpiresAt t1 expiresIn)) \<longrightarrow>
      getToken_sequence ((t0, Inr (Generated tok ty expiresIn), t1) # later) None
        = (replicate (Suc (length later)) (Inr tok),
           Some \<lparr>token = tok, expiresAt = storedExpiresAt t1 expiresIn\<rparr>, 1))
   \<and> (tokenData m = None \<and> i < length (callers m) \<and> callers m ! i = Idle \<longrightarrow>
        exchanges (step provider m (i, now)) = Suc (exchanges m)
        \<and> tokenData (step provider m (i, now)) = None
        \<and> callers (step provider m (i, now)) ! i = Awaiting (exchanges m))"
  using getToken_sequence_first [of later t1 expiresIn t0 tok ty]
    step_begin_empty [of m i provider now]
  by blast

text \<open>
  Witness of C6: three calls in a row, at times 0, 10 and 3540004; and the second of two
  overlapping calls, which begins while the first awaits its exchange.
\<close>

theorem exchanges_of_sequential_and_overlapping_calls_witness:
  "storedExpiresAt 5 (Finite 3600) = Finite 3540005
   \<and> lessThan (ms 10) (Finite 3540005) \<and> lessThan (ms 3540004) (Finite 3540005)
   \<and> getToken_sequence [(0, Inr (Generated ''abc'' ''Bearer'' (Finite 3600)), 5),
         (10, Inl (Error ''not called''), 10), (3540004, Inl (Error ''not called''), 3540004)] None
       = ([Inr ''abc'', Inr ''abc'', Inr ''abc''],
          Some \<lparr>token = ''abc'', expiresAt = Finite 3540005\<rparr>, 1)
   \<and> exchanges (step freshTokens
         \<lparr>tokenData = None, exchanges = 1, callers = [Awaiting 0, Idle]\<rparr> (1, 0)) = 2"
proof -
  have s: "storedExpiresAt 5 (Finite 3600) = Finite 3540005"
    by (simp add: storedExpiresAt_def expiry_def subN_def ms_def)
  have l: "lessThan (ms 10) (Finite 3540005)" "lessThan (ms 3540004) (Finite 3540005)"
    by (simp_all add: ms_def)
  have h: "\<forall>c \<in> set [(10, Inl (Error ''not called''), 10), (3540004, Inl (Error ''not called''), 3540004)].
       lessThan (ms (fst c)) (storedExpiresAt 5 (Finite 3600))"
    using l by (simp add: s)
  have p: "tokenData \<lparr>tokenData = None, exchanges = 1, callers = [Awaiting 0, Idle]\<rparr> = None
      \<and> 1 < length (callers \<lparr>tokenData = None, exchanges = 1, callers = [Awaiting 0, Idle]\<rparr>)
      \<and> callers \<lparr>tokenData = None, exchanges = 1, callers = [Awaiting 0, Idle]\<rparr> ! 1 = Idle"
    by simp
  note t = exchanges_of_sequential_and_overlapping_calls
    [of "[(10, Inl (Error ''not called''), 10), (3540004, Inl (Error ''not called''), 3540004)]"
      5 "Finite 3600" 0 "''abc''" "''Bearer''"
      "\<lparr>tokenData = None, exchanges = 1, callers = [Awaiting 0, Idle]\<rparr>" 1 freshTokens 0]
  from t [THEN conjunct1, THEN mp, OF h]
  have a: "getToken_sequence [(0, Inr (Generated ''abc'' ''Bearer'' (Finite 3600)), 5),
         (10, Inl (Error ''not called''), 10), (3540004, Inl (Error ''not called''), 3540004)] None
       = ([Inr ''abc'', Inr ''abc'', Inr ''abc''],
          Some \<lparr>token = ''abc'', expiresAt = Finite 3540005\<rparr>, 1)"
    by (simp add: s numeral_3_eq_3)
  from t [THEN conjunct2, THEN mp, OF p]
  have b: "exchanges (step freshTokens
         \<lparr>tokenData = None, exchanges = 1, callers = [Awaiting 0, Idle]\<rparr> (1, 0)) = 2"
    by simp
  from s l a b show ?thesis by (simp only: simp_thms)
qed

text \<open>
  Counterexample to C6 as stated: ten calls begin before any exchange settles; each finds
  \<open>tokenData\<close> empty and calls \<open>generateToken\<close>, so ten exchanges are issued, and the
  callers receive different tokens.
\<close>

theorem concurrent_calls_counterexample:
  "exchanges (run freshTokens tenCalls
      \<lparr>tokenData = None, exchanges = 0, callers = replicate 10 Idle\<rparr>) = 10
   \<and> exchanges (run freshTokens tenCalls
      \<lparr>tokenData = None, exchanges = 0, callers = replicate 10 Idle\<rparr>) \<noteq> 1
   \<and> callers (run freshTokens tenCalls
      \<lparr>tokenData = None, exchanges = 0, callers = replicate 10 Idle\<rparr>) ! 0
       = Finished (Inr ''t'')
   \<and> callers (run freshTokens tenCalls
      \<lparr>tokenData = None, exchanges = 0, callers = replicate 10 Idle\<rparr>) ! 9
       = Finished (Inr ''tttttttttt'')"
  by code_simp

section \<open>Properties of the rate limiter\<close>

lemma rollWindow_counts [simp]:
  "activeCount (rollWindow now q) = activeCount q"
  "maxConcurrent (rollWindow now q) = maxConcurrent q"
  "windowDurationMs (rollWindow now q) = windowDurationMs q"
  "windowBudget (rollWindow now q) = windowBudget q"
  by (simp_all add: rollWindow_def)

lemma acquire_answer:
  "fst (acquire now q) = Admitted \<longleftrightarrow>
     activeCount q < maxConcurrent q \<and> admittedInWindow (rollWindow now q) < windowBudget q"
  by (simp add: acquire_def Let_def)

lemma acquire_counts:
  "maxConcurrent (snd (acquire now q)) = maxConcurrent q"
  "activeCount (snd (acquire now q))
     = activeCount q + (if fst (acquire now q) = Admitted then 1 else 0)"
  "admittedInWindow (snd (acquire now q))
     = admittedInWindow (rollWindow now q) + (if fst (acquire now q) = Admitted then 1 else 0)"
  "windowStart (snd (acquire now q)) = windowStart (rollWindow now q)"
  by (simp_all add: acquire_def Let_def)

lemma apply_events_Cons: "apply_events (ev # evs) q = apply_events evs (apply_event q ev)"
  by (simp add: apply_events_def)

lemma outstanding_bounded:
  "activeCount q = n \<Longrightarrow> n \<le> maxConcurrent q \<Longrightarrow> outstanding evs q n = Some m \<Longrightarrow>
   m = activeCount (apply_events evs q) \<and> m \<le> maxConcurrent q
   \<and> maxConcurrent (apply_events evs q) = maxConcurrent q"
proof (induction evs arbitrary: q n)
  case Nil
  then show ?case by (simp add: apply_events_def)
next
  case (Cons ev evs)
  show ?case
  proof (cases ev)
    case (Acquire now)
    obtain a q' where aq: "acquire now q = (a, q')" by (cases "acquire now q")
    have q': "activeCount q' = n + (if a = Admitted then 1 else 0)"
        "maxConcurrent q' = maxConcurrent q"
      using acquire_counts(1,2) [of now q] aq Cons.prems(1) by simp_all
    have le: "n + (if a = Admitted then 1 else 0) \<le> maxConcurrent q'"
      using acquire_answer [of now q] aq Cons.prems(1,2) q'(2) by auto
    from Cons.prems(3) Acquire aq
    have "outstanding evs q' (n + (if a = Admitted then 1 else 0)) = Some m"
      by (cases a) simp_all
    from Cons.IH [OF q'(1) le this] q'(2) Acquire aq show ?thesis
      by (simp add: apply_events_Cons)
  next
    case Release
    with Cons.prems(3) have n: "n \<noteq> 0" and o: "outstanding evs (release q) (n - 1) = Some m"
      by (simp_all split: if_splits)
    have "activeCount (release q) = n - 1" "n - 1 \<le> maxConcurrent (release q)"
      using Cons.prems(1,2) by (simp_all add: release_def)
    from Cons.IH [OF this o] Release show ?thesis
      by (simp add: apply_events_Cons release_def)
  next
    case Cancel
    with Cons.prems Cons.IH [of q n] show ?thesis
      by (simp add: apply_events_Cons)
  qed
qed

lemma outstanding_take:
  "outstanding evs q n = Some m \<Longrightarrow> \<exists>m'. outstanding (take i evs) q n = Some m'"
proof (induction evs arbitrary: q n i)
  case Nil
  then show ?case by simp
next
  case (Cons ev evs)
  show ?case
  proof (cases i)
    case 0
    then show ?thesis by simp
  next
    case (Suc j)
    with Cons show ?thesis
      by (cases ev) (auto split: prod.splits admission.splits if_splits)
  qed
qed

lemma rollWindow_same_window:
  "now < windowStart q + windowDurationMs q \<Longrightarrow> rollWindow now q = q"
  by (simp add: rollWindow_def)

lemma aligned_window:
  fixes d :: int
  assumes "0 < d" and "ws + d \<le> now"
  shows "ws < ws + ((now - ws) div d) * d" and "ws + ((now - ws) div d) * d \<le> now"
    and "now < ws + ((now - ws) div d) * d + d"
proof -
  have "0 < (now - ws) div d"
    using assms by (simp add: pos_imp_zdiv_pos_iff)
  then have "1 \<le> (now - ws) div d" by simp
  then have "d \<le> ((now - ws) div d) * d"
    using assms(1) by (metis mult.commute mult_le_cancel_left_pos mult.right_neutral)
  with assms(1) show "ws < ws + ((now - ws) div d) * d" by simp
  have eq: "((now - ws) div d) * d + (now - ws) mod d = now - ws" by simp
  have "0 \<le> (now - ws) mod d" "(now - ws) mod d < d" using assms(1) by simp_all
  with eq show "ws + ((now - ws) div d) * d \<le> now" "now < ws + ((now - ws) div d) * d + d"
    by linarith+
qed

text \<open>
  Claim C7, on the rate limiter modelled from the specification. Whatever the sequence of
  acquisitions, releases and cancellations, after the whole of it and after every part of
  it, the acquisitions outstanding (admitted and not released, counted from the answers
  given) are the limiter's \<open>activeCount\<close> and never exceed \<open>maxConcurrent\<close>; an
  acquisition is admitted only below the ceiling and within the window's budget. A
  release and a cancellation leave the window and its counter as they are. An acquisition
  inside the current window keeps \<open>windowStart\<close> and adds to \<open>admittedInWindow\<close> exactly
  the admission it grants; an acquisition at or after the window's end moves
  \<open>windowStart\<close> forward by whole windows to the window that holds the current time, and
  the counter starts again: afterwards it counts that acquisition alone.
\<close>

theorem active_count_bounded:
  "(activeCount q = n \<and> n \<le> maxConcurrent q \<and> outstanding evs q n = Some m \<longrightarrow>
      m \<le> maxConcurrent q \<and> m = activeCount (apply_events evs q)
      \<and> (\<forall>i. \<exists>m'. outstanding (take i evs) q n = Some m' \<and> m' \<le> maxConcurrent q))
   \<and> (fst (acquire now q) = Admitted \<longrightarrow>
        activeCount q < maxConcurrent q \<and> admittedInWindow (rollWindow now q) < windowBudget q)
   \<and> windowStart (apply_event q Release) = windowStart q
   \<and> admittedInWindow (apply_event q Release) = admittedInWindow q
   \<and> apply_event q Cancel = q
   \<and> (now < windowStart q + windowDurationMs q \<longrightarrow>
          windowStart (apply_event q (Acquire now)) = windowStart q
          \<and> admittedInWindow (apply_event q (Acquire now))
              = admittedInWindow q + (if fst (acquire now q) = Admitted then 1 else 0))
   \<and> (0 < windowDurationMs q \<and> windowStart q + windowDurationMs q \<le> now \<longrightarrow>
          windowStart q < windowStart (apply_event q (Acquire now))
          \<and> windowStart (apply_event q (Acquire now)) \<le> now
          \<and> now < windowStart (apply_event q (Acquire now)) + windowDurationMs q
          \<and> (\<exists>k. windowStart (apply_event q (Acquire now))
                  = windowStart q + k * windowDurationMs q)
          \<and> admittedInWindow (apply_event q (Acquire now))
              = (if fst (acquire now q) = Admitted then 1 else 0))"
proof -
  have p1: "activeCount q = n \<and> n \<le> maxConcurrent q \<and> outstanding evs q n = Some m \<longrightarrow>
      m \<le> maxConcurrent q \<and> m = activeCount (apply_events evs q)
      \<and> (\<forall>i. \<exists>m'. outstanding (take i evs) q n = Some m' \<and> m' \<le> maxConcurrent q)"
  proof (intro impI)
    assume a: "activeCount q = n \<and> n \<le> maxConcurrent q \<and> outstanding evs q n = Some m"
    then have q: "activeCount q = n" and n: "n \<le> maxConcurrent q"
      and o: "outstanding evs q n = Some m" by blast+
    have "\<exists>m'. outstanding (take i evs) q n = Some m' \<and> m' \<le> maxConcurrent q" for i
    proof -
      from outstanding_take [OF o, of i] obtain m' where m': "outstanding (take i evs) q n = Some m'"
        by blast
      from outstanding_bounded [OF q n m'] m' show ?thesis by blast
    qed
    with outstanding_bounded [OF q n o]
    show "m \<le> maxConcurrent q \<and> m = activeCount (apply_events evs q)
      \<and> (\<forall>i. \<exists>m'. outstanding (take i evs) q n = Some m' \<and> m' \<le> maxConcurrent q)"
      by blast
  qed
  have p2: "fst (acquire now q) = Admitted \<longrightarrow>
        activeCount q < maxConcurrent q \<and> admittedInWindow (rollWindow now q) < windowBudget q"
    by (simp add: acquire_answer)
  have p3: "windowStart (apply_event q Release) = windowStart q"
    and p4: "admittedInWindow (apply_event q Release) = admittedInWindow q"
    and p5: "apply_event q Cancel = q"
    by (simp_all add: release_def)
  have p6: "now < windowStart q + windowDurationMs q \<longrightarrow>
          windowStart (apply_event q (Acquire now)) = windowStart q
          \<and> admittedInWindow (apply_event q (Acquire now))
              = admittedInWindow q + (if fst (acquire now q) = Admitted then 1 else 0)"
    by (simp add: acquire_counts rollWindow_same_window)
  have p7: "0 < windowDurationMs q \<and> windowStart q + windowDurationMs q \<le> now \<longrightarrow>
          windowStart q < windowStart (apply_event q (Acquire now))
          \<and> windowStart (apply_event q (Acquire now)) \<le> now
          \<and> now < windowStart (apply_event q (Acquire now)) + windowDurationMs q
          \<and> (\<exists>k. windowStart (apply_event q (Acquire now))
                  = windowStart q + k * windowDurationMs q)
          \<and> admittedInWindow (apply_event q (Acquire now))
              = (if fst (acquire now q) = Admitted then 1 else 0)"
  proof (intro impI)
    assume a: "0 < windowDurationMs q \<and> windowStart q + windowDurationMs q \<le> now"
    let ?ws = "windowStart q + ((now - windowStart q) div windowDurationMs q) * windowDurationMs q"
    have ws: "windowStart (apply_event q (Acquire now)) = ?ws"
      using a by (simp add: acquire_counts rollWindow_def)
    have ad: "admittedInWindow (apply_event q (Acquire now))
              = (if fst (acquire now q) = Admitted then 1 else 0)"
      using a by (simp add: acquire_counts) (simp add: rollWindow_def)
    from a aligned_window [of "windowDurationMs q" "windowStart q" now]
    have "windowStart q < ?ws" "?ws \<le> now" "now < ?ws + windowDurationMs q" by simp_all
    moreover have "\<exists>k. ?ws = windowStart q + k * windowDurationMs q" by blast
    ultimately show "windowStart q < windowStart (apply_event q (Acquire now))
          \<and> windowStart (apply_event q (Acquire now)) \<le> now
          \<and> now < windowStart (apply_event q (Acquire now)) + windowDurationMs q
          \<and> (\<exists>k. windowStart (apply_event q (Acquire now))
                  = windowStart q + k * windowDurationMs q)
          \<and> admittedInWindow (apply_event q (Acquire now))
              = (if fst (acquire now q) = Admitted then 1 else 0)"
      unfolding ws ad by blast
  qed
  from p1 p2 p3 p4 p5 p6 p7 show ?thesis by (intro conjI)
qed

text \<open>
  Witness of C7: with two slots, the third of three acquisitions is not admitted, and
  after a release a fourth is: two are outstanding; an acquisition at time 30000 stays in
  the window that began at 0, and at time 130000 the window has become the one that began
  at 120000.
\<close>

theorem active_count_bounded_witness:
  "activeCount busyLimiter = 0 \<and> (0::nat) \<le> maxConcurrent busyLimiter
   \<and> outstanding [Acquire 10, Acquire 20, Acquire 30, Release, Acquire 40] busyLimiter 0 = Some 2
   \<and> (2::nat) \<le> maxConcurrent busyLimiter
   \<and> activeCount (apply_events [Acquire 10, Acquire 20, Acquire 30, Release, Acquire 40]
        busyLimiter) = 2
   \<and> fst (acquire 10 busyLimiter) = Admitted
   \<and> activeCount busyLimiter < maxConcurrent busyLimiter
   \<and> 30000 < windowStart busyLimiter + windowDurationMs busyLimiter
   \<and> admittedInWindow (apply_event busyLimiter (Acquire 30000)) = 1
   \<and> 0 < windowDurationMs busyLimiter
   \<and> windowStart busyLimiter + windowDurationMs busyLimiter \<le> 130000
   \<and> windowStart (apply_event busyLimiter (Acquire 130000)) = 120000"
proof -
  have q: "activeCount busyLimiter = 0" "(0::nat) \<le> maxConcurrent busyLimiter"
    by (simp_all add: busyLimiter_def)
  have o: "outstanding [Acquire 10, Acquire 20, Acquire 30, Release, Acquire 40] busyLimiter 0
      = Some 2"
    by (simp add: busyLimiter_def MPESAJS_TIME_WINDOW_MS_def acquire_def rollWindow_def
          release_def Let_def)
  have ad: "fst (acquire 10 busyLimiter) = Admitted"
    by (simp add: busyLimiter_def MPESAJS_TIME_WINDOW_MS_def acquire_def rollWindow_def Let_def)
  have i: "30000 < windowStart busyLimiter + windowDurationMs busyLimiter"
    by (simp add: busyLimiter_def MPESAJS_TIME_WINDOW_MS_def)
  have d: "0 < windowDurationMs busyLimiter \<and>
       windowStart busyLimiter + windowDurationMs busyLimiter \<le> 130000"
    by (simp add: busyLimiter_def MPESAJS_TIME_WINDOW_MS_def)
  have w: "windowStart (apply_event busyLimiter (Acquire 130000)) = 120000"
    by (simp add: busyLimiter_def MPESAJS_TIME_WINDOW_MS_def acquire_def rollWindow_def Let_def)
  have a3: "fst (acquire 30000 busyLimiter) = Admitted"
    by (simp add: busyLimiter_def MPESAJS_TIME_WINDOW_MS_def acquire_def rollWindow_def Let_def)
  note t = active_count_bounded [of busyLimiter 0
      "[Acquire 10, Acquire 20, Acquire 30, Release, Acquire 40]" 2 10]
  note t3 = active_count_bounded [of busyLimiter 0 "[]" 0 30000]
  from t [THEN conjunct1, THEN mp] q o
  have b: "(2::nat) \<le> maxConcurrent busyLimiter
      \<and> 2 = activeCount (apply_events [Acquire 10, Acquire 20, Acquire 30, Release, Acquire 40]
        busyLimiter)" by blast
  from t [THEN conjunct2, THEN conjunct1, THEN mp, OF ad]
  have c: "activeCount busyLimiter < maxConcurrent busyLimiter" by (rule conjunct1)
  from t3 [THEN conjunct2, THEN conjunct2, THEN conjunct2, THEN conjunct2, THEN conjunct2,
      THEN conjunct1, THEN mp, OF i] a3
  have e: "admittedInWindow (apply_event busyLimiter (Acquire 30000)) = 1"
    by (simp add: busyLimiter_def)
  from q o b ad c i e d w show ?thesis by (simp only: simp_thms) simp
qed

section \<open>Properties of the validation\<close>

text \<open>
  Claim C9, at the input where the code departs from it: the payment details are in
  order but for the amount \<open>NaN\<close>. The rule \<open>amount > 0\<close> does not hold, and it is the
  first rule violated, but \<open>NaN <= 0\<close> is false and \<open>validatePaymentDetails\<close> throws
  nothing.
\<close>

theorem validatePaymentDetails_accepts_NaN:
  "validatePaymentDetails nanPayment = Inr ()
   \<and> \<not> greaterThanZero (amount nanPayment)
   \<and> firstViolated (rules nanPayment) = Some ''amount''"
  by (simp add: validatePaymentDetails_def nanPayment_def phoneNumberPattern_def rules_def
        eval_nat_numeral)

text \<open>
  For every amount but \<open>NaN\<close> the validation does what the claim says: it reports the field
  of the first rule violated, in the order of the rules, and throws nothing exactly when
  the five rules hold.
\<close>

lemma lessEqualZero_iff: "n \<noteq> NaN \<Longrightarrow> lessEqualZero n = (\<not> greaterThanZero n)"
  by (cases n) auto

lemma validatePaymentDetails_first_violated:
  assumes "amount details \<noteq> NaN"
  shows "reportedField (validatePaymentDetails details) = firstViolated (rules details)
    \<and> (validatePaymentDetails details = Inr () \<longleftrightarrow> (\<forall>r \<in> set (rules details). snd r))
    \<and> (validatePaymentDetails details = Inr () \<or>
        (\<exists>m f. validatePaymentDetails details = Inl (Mpesa (ValidationError m (Some f)))))"
  using lessEqualZero_iff [OF assms]
  by (simp add: validatePaymentDetails_def rules_def not_less)

lemma test_list_all2: "test cs s = list_all2 accepts cs s"
  by (induction cs s rule: test.induct) simp_all

lemma test_phoneNumberPattern_length: "test phoneNumberPattern s \<Longrightarrow> length s = 12"
  by (auto simp: test_list_all2 phoneNumberPattern_def dest: list_all2_lengthD)

lemma phoneNumberPattern_examples:
  "test phoneNumberPattern ''251712345678''"
  "\<not> test phoneNumberPattern ''251612345678''"
  "\<not> test phoneNumberPattern ''25171234567''"
  "\<not> test phoneNumberPattern ''2517123456789''"
  "\<not> test phoneNumberPattern ''25171234567x''"
  by (simp_all add: phoneNumberPattern_def eval_nat_numeral)

section \<open>Properties of the HTTPS check\<close>

text \<open>
  Claim C10. For every string and every behaviour of the URL parser, \<open>isValidHttpsUrl\<close>
  returns a boolean and throws nothing: \<open>true\<close> exactly when the string parses to a URL
  whose protocol is \<open>https:\<close>, \<open>false\<close> otherwise, also when the parser throws. The
  method of \<open>UrlValidator\<close> does the same.
\<close>

theorem isValidHttpsUrl_total:
  "isValidHttpsUrl newURL urlString
     = Inr (\<exists>url. newURL urlString = Inr url \<and> protocol url = ''https:'')
   \<and> UrlValidator_isValidHttpsUrl newURL urlString
     = Inr (\<exists>url. newURL urlString = Inr url \<and> protocol url = ''https:'')"
  by (auto simp: isValidHttpsUrl_def UrlValidator_isValidHttpsUrl_def tryCatch_def split: sum.splits)

end
